theory Spec2Isabelle
  imports Complex_Main "HOL-Library.AList"
begin

section \<open>The bubble shooter: data model\<close>

text \<open>
  The embedding follows \<^verbatim>\<open>src/js/index.ts\<close> (class \<^verbatim>\<open>BubbleShooter\<close>); the second
  source file holds the same methods split over the classes \<^verbatim>\<open>BubbleShooter\<close>,
  \<^verbatim>\<open>Bullet\<close> and \<^verbatim>\<open>Gun\<close>.

  JavaScript numbers are modelled by the reals. Every coordinate of the grid is a multiple
  of one half, on which the arithmetic of doubles is exact; the position of a bullet in
  flight and the distances \<^verbatim>\<open>Math.hypot\<close> returns are idealised. The one place where a
  double that is no real number arises, the quotient \<^verbatim>\<open>0 / 0\<close> of normalising a zero aim
  vector, is written out in \<open>fireBullet\<close>.
\<close>

definition PLAYGROUND_WIDTH :: nat where
  "PLAYGROUND_WIDTH = 40"

definition PLAYGROUND_HEIGHT :: nat where
  "PLAYGROUND_HEIGHT = 30"

datatype Color = Orange | White | Blue

datatype Direction = Left | Right

datatype Vec2D = Vec2D (xc: real) (yc: real)

text \<open>
  \<^verbatim>\<open>BubbleGrid\<close> is an object with string keys: its entries are enumerated in insertion
  order and a key occurs once. The key of a cell is \<^verbatim>\<open>`${coord.x} ${coord.y}`\<close>, which
  \<^verbatim>\<open>key2Coord\<close> parses back to the same two numbers, so a key is modelled by the
  coordinate it prints. The value \<open>None\<close> is \<^verbatim>\<open>null\<close> (a free spot). A lookup
  \<open>map_of g k\<close> that returns \<open>None\<close> is \<^verbatim>\<open>undefined\<close> (no such key); an assignment
  \<^verbatim>\<open>g[k] = v\<close> is \<open>AList.update k v g\<close>, which overwrites in place or appends a new key.
\<close>

type_synonym BubbleGrid = "(Vec2D \<times> Color option) list"

datatype ScoreText = SCORE int | YOU_WON

text \<open>
  The field \<open>scoreText\<close> lists the texts written to the \<^verbatim>\<open>innerText\<close> of the element
  \<^verbatim>\<open>score\<close>, oldest first: the page shows the last one. The field \<open>bullet\<close> is \<open>None\<close>
  for the vector whose two components are \<^verbatim>\<open>NaN\<close>.
\<close>

record BubbleShooter =
  gun :: Vec2D
  bubbles :: BubbleGrid
  bullet :: "Vec2D option"
  bulletColor :: Color
  time :: real
  score :: int
  wantedLandingPosition :: Vec2D
  scoreText :: "ScoreText list"

datatype error = TypeError

subsection \<open>Vec2D\<close>

definition add :: "Vec2D \<Rightarrow> Vec2D \<Rightarrow> Vec2D" where
  "add v vector = Vec2D (xc v + xc vector) (yc v + yc vector)"

definition sub :: "Vec2D \<Rightarrow> Vec2D \<Rightarrow> Vec2D" where
  "sub v vector = Vec2D (xc v - xc vector) (yc v - yc vector)"

definition scalarMul :: "Vec2D \<Rightarrow> real \<Rightarrow> Vec2D" where
  "scalarMul v scalar = Vec2D (xc v * scalar) (yc v * scalar)"

text \<open>The caller \<open>fireBullet\<close> treats the divisor zero itself.\<close>

definition scalarDiv :: "Vec2D \<Rightarrow> real \<Rightarrow> Vec2D" where
  "scalarDiv v scalar = Vec2D (xc v / scalar) (yc v / scalar)"

definition length_Vec2D :: "Vec2D \<Rightarrow> real" where
  "length_Vec2D v = sqrt ((xc v)\<^sup>2 + (yc v)\<^sup>2)"

subsection \<open>Neighbours on the lattice\<close>

text \<open>
  The first loop of \<^verbatim>\<open>getSurroundingBubbles\<close> copies, in enumeration order, the entries
  of the grid at one of the six offsets into a fresh object; the second loop deletes the
  entries of the wrong state: the coloured ones when \<^verbatim>\<open>keepOnly\<close> is undefined, the ones
  that are not of colour \<^verbatim>\<open>keepOnly\<close> otherwise.
\<close>

definition getSurroundingBubbles :: "BubbleGrid \<Rightarrow> Vec2D \<Rightarrow> Color option \<Rightarrow> BubbleGrid" where
  "getSurroundingBubbles g coord keepOnly =
     filter (\<lambda>(key, color).
         (case keepOnly of
            None \<Rightarrow> \<not> (color \<noteq> None)
          | Some wanted \<Rightarrow> \<not> (color \<noteq> Some wanted)))
       (filter (\<lambda>(bubbleKey, color).
           (xc bubbleKey = xc coord - 0.5 \<and> yc bubbleKey = yc coord + 1) \<or>
           (xc bubbleKey = xc coord + 0.5 \<and> yc bubbleKey = yc coord + 1) \<or>
           (xc bubbleKey = xc coord - 1 \<and> yc bubbleKey = yc coord) \<or>
           (xc bubbleKey = xc coord + 1 \<and> yc bubbleKey = yc coord) \<or>
           (xc bubbleKey = xc coord - 0.5 \<and> yc bubbleKey = yc coord - 1) \<or>
           (xc bubbleKey = xc coord + 0.5 \<and> yc bubbleKey = yc coord - 1)) g)"

subsection \<open>Score display\<close>

definition updateScore :: "BubbleShooter \<Rightarrow> BubbleShooter" where
  "updateScore s = s\<lparr>scoreText := scoreText s @ [SCORE (score s)]\<rparr>"

definition declareWin :: "BubbleShooter \<Rightarrow> BubbleShooter" where
  "declareWin s = s\<lparr>scoreText := scoreText s @ [YOU_WON]\<rparr>"

subsection \<open>Explosion\<close>

text \<open>
  The cells that still pass the test \<^verbatim>\<open>!== null\<close>, among the keys of the grid and the
  keys \<open>ks\<close> a loop has yet to visit; the explosion terminates because they get fewer.
\<close>

definition live :: "BubbleShooter \<Rightarrow> Vec2D list \<Rightarrow> Vec2D set" where
  "live s ks = {k \<in> fst ` set (bubbles s) \<union> set ks. map_of (bubbles s) k \<noteq> Some None}"

text \<open>
  \<open>explode\<close> is the method, \<open>explodeEach\<close> its \<^verbatim>\<open>for\<close> loop over the keys of the
  neighbours found on entry. The test \<^verbatim>\<open>this.bubbles[k] !== null\<close> reads the grid as the
  earlier iterations and their recursive calls left it.
\<close>

function explode :: "BubbleShooter \<Rightarrow> Vec2D \<Rightarrow> BubbleShooter"
  and explodeEach :: "BubbleShooter \<Rightarrow> Vec2D list \<Rightarrow> BubbleShooter" where
  "explode s coord =
     explodeEach s (map fst (getSurroundingBubbles (bubbles s) coord (Some (bulletColor s))))"
| "explodeEach s [] = s"
| "explodeEach s (surroundingBubble # rest) =
     (if map_of (bubbles s) surroundingBubble \<noteq> Some None
      then explodeEach
             (explode
                ((updateScore (s\<lparr>score := score s + 10\<rparr>))
                   \<lparr>bubbles := AList.update surroundingBubble None (bubbles s)\<rparr>)
                surroundingBubble)
             rest
      else explodeEach s rest)"
  by pat_completeness auto

lemma finite_live: "finite (live s ks)"
  by (simp add: live_def)

lemma getSurroundingBubbles_subset: "set (getSurroundingBubbles g coord keepOnly) \<subseteq> set g"
  by (auto simp: getSurroundingBubbles_def)

lemma bubbles_updateScore [simp]: "bubbles (updateScore s) = bubbles s"
  by (simp add: updateScore_def)

lemma explode_partial:
  "explode_explodeEach_dom (Inl (s, coord)) \<Longrightarrow>
     fst ` set (bubbles (explode s coord)) = fst ` set (bubbles s) \<and>
     (\<forall>x. map_of (bubbles s) x = Some None \<longrightarrow> map_of (bubbles (explode s coord)) x = Some None)"
  "explode_explodeEach_dom (Inr (s, ks)) \<Longrightarrow>
     fst ` set (bubbles (explodeEach s ks)) = fst ` set (bubbles s) \<union> set ks \<and>
     (\<forall>x. map_of (bubbles s) x = Some None \<longrightarrow> map_of (bubbles (explodeEach s ks)) x = Some None)"
proof (induct rule: explode_explodeEach.pinduct)
  case (1 s coord)
  have "fst ` set (getSurroundingBubbles (bubbles s) coord (Some (bulletColor s))) \<subseteq> fst ` set (bubbles s)"
    using getSurroundingBubbles_subset by (rule image_mono)
  with 1 show ?case
    by (auto simp: explode.psimps)
next
  case (2 s)
  then show ?case by (simp add: explodeEach.psimps)
next
  case (3 s k rest)
  show ?case
  proof (cases "map_of (bubbles s) k \<noteq> Some None")
    case True
    with 3 show ?thesis
      by (auto simp: explodeEach.psimps dom_update update_conv)
  next
    case False
    then have "k \<in> fst ` set (bubbles s)"
      by (metis domI dom_map_of_conv_image_fst)
    with 3 False show ?thesis
      by (auto simp: explodeEach.psimps)
  qed
qed

termination explode
proof (relation "inv_image (less_than <*lex*> less_than)
    (\<lambda>x. case x of
       Inl (s, c) \<Rightarrow> (card (live s []),
          Suc (length (getSurroundingBubbles (bubbles s) c (Some (bulletColor s)))))
     | Inr (s, ks) \<Rightarrow> (card (live s ks), length ks))", goal_cases)
  case 1
  show ?case by (intro wf_inv_image wf_lex_prod wf_less_than)
next
  case (2 s coord)
  have "fst ` set (getSurroundingBubbles (bubbles s) coord (Some (bulletColor s))) \<subseteq> fst ` set (bubbles s)"
    using getSurroundingBubbles_subset by (rule image_mono)
  then have "live s (map fst (getSurroundingBubbles (bubbles s) coord (Some (bulletColor s)))) = live s []"
    by (auto simp: live_def)
  then show ?case by simp
next
  case (3 s k rest)
  let ?s' = "(updateScore (s\<lparr>score := score s + 10\<rparr>))\<lparr>bubbles := AList.update k None (bubbles s)\<rparr>"
  have "live ?s' [] \<subseteq> live s (k # rest)"
    by (auto simp: live_def dom_update update_conv split: if_splits)
  moreover have "k \<in> live s (k # rest)" "k \<notin> live ?s' []"
    using 3 by (auto simp: live_def update_conv)
  ultimately have "live ?s' [] \<subset> live s (k # rest)" by blast
  then have "card (live ?s' []) < card (live s (k # rest))"
    by (rule psubset_card_mono [OF finite_live])
  then show ?case by simp
next
  case (4 s k rest)
  let ?s' = "(updateScore (s\<lparr>score := score s + 10\<rparr>))\<lparr>bubbles := AList.update k None (bubbles s)\<rparr>"
  let ?t = "explode ?s' k"
  from explode_partial(1) [OF 4(2)]
  have keys: "fst ` set (bubbles ?t) = fst ` set (bubbles ?s')"
    and cleared: "\<And>x. map_of (bubbles ?s') x = Some None \<Longrightarrow> map_of (bubbles ?t) x = Some None"
    by blast+
  have "live ?t rest \<subseteq> live s (k # rest)"
  proof
    fix x assume x: "x \<in> live ?t rest"
    then have "map_of (bubbles ?t) x \<noteq> Some None" by (simp add: live_def)
    with cleared have "map_of (bubbles ?s') x \<noteq> Some None" by blast
    then have "x \<noteq> k" "map_of (bubbles s) x \<noteq> Some None"
      by (auto simp: update_conv split: if_splits)
    moreover from x keys have "x \<in> fst ` set (bubbles s) \<union> set (k # rest)"
      by (auto simp: live_def dom_update)
    ultimately show "x \<in> live s (k # rest)" by (simp add: live_def)
  qed
  then have "card (live ?t rest) \<le> card (live s (k # rest))"
    by (rule card_mono [OF finite_live])
  then show ?case by auto
next
  case (5 s k rest)
  have "live s rest \<subseteq> live s (k # rest)" by (auto simp: live_def)
  then have "card (live s rest) \<le> card (live s (k # rest))"
    by (rule card_mono [OF finite_live])
  then show ?case by auto
qed

subsection \<open>Rounds\<close>

definition createGun :: Vec2D where
  "createGun = Vec2D 0 1"

definition createBullet :: Vec2D where
  "createBullet = Vec2D 0 0"

text \<open>
  \<^verbatim>\<open>pickBulletColor\<close> samples the palette at random: the colour it returns is the
  parameter \<open>sampled\<close>. \<^verbatim>\<open>reDraw\<close> only paints.
\<close>

definition newRound :: "Color \<Rightarrow> BubbleShooter \<Rightarrow> BubbleShooter" where
  "newRound sampled s =
     (let s1 = s\<lparr>bullet := Some createBullet, bulletColor := sampled, time := 0\<rparr>
      in if list_all (\<lambda>x. x = None) (map snd (bubbles s1)) then declareWin s1 else s1)"

subsection \<open>Landing\<close>

text \<open>
  The object \<^verbatim>\<open>distances\<close> of \<^verbatim>\<open>landBullet\<close>: one entry for each free neighbour of the
  wanted landing position, in their order.
\<close>

definition distances :: "BubbleShooter \<Rightarrow> (Vec2D \<times> real) list" where
  "distances s =
     map (\<lambda>(position, color).
            (position, \<bar>length_Vec2D (sub position (wantedLandingPosition s))\<bar>))
       (getSurroundingBubbles (bubbles s) (wantedLandingPosition s) None)"

text \<open>\<^verbatim>\<open>Math.min\<close> of no argument is \<^verbatim>\<open>Infinity\<close>, here \<open>None\<close>.\<close>

definition minDistance :: "BubbleShooter \<Rightarrow> real option" where
  "minDistance s =
     (case map snd (distances s) of
        [] \<Rightarrow> None
      | d # ds \<Rightarrow> Some (fold min ds d))"

text \<open>
  \<^verbatim>\<open>Object.keys(distances).find(...)\<close> is \<^verbatim>\<open>undefined\<close> (\<open>None\<close>) when no key has the
  minimum distance, which is the case exactly when there is no key at all.
\<close>

definition finalPosition :: "BubbleShooter \<Rightarrow> Vec2D option" where
  "finalPosition s =
     find (\<lambda>d. case minDistance s of
                  None \<Rightarrow> False
                | Some m \<Rightarrow> map_of (distances s) d = Some m)
       (map fst (distances s))"

text \<open>
  With \<^verbatim>\<open>finalPosition\<close> undefined, \<^verbatim>\<open>key2Coord\<close> calls \<^verbatim>\<open>split\<close> on \<^verbatim>\<open>undefined\<close>
  and throws a \<^verbatim>\<open>TypeError\<close> before anything is assigned. The method returns nothing;
  the model returns, with the new state, the position where the bullet landed, which the
  new round erases from the state.
\<close>

definition landBullet :: "Color \<Rightarrow> BubbleShooter \<Rightarrow> error + Vec2D \<times> BubbleShooter" where
  "landBullet sampled s =
     (case finalPosition s of
        None \<Rightarrow> Inl TypeError
      | Some p \<Rightarrow>
          Inr (p,
               newRound sampled
                 (explode
                    (s\<lparr>bullet := Some p,
                       bubbles := AList.update p (Some (bulletColor s)) (bubbles s)\<rparr>)
                    p)))"

subsection \<open>Flight\<close>

text \<open>
  The comparisons of the flight loop involve the position of the bullet; with a \<^verbatim>\<open>NaN\<close>
  they are all false.
\<close>

definition nearBullet :: "Vec2D option \<Rightarrow> Vec2D \<Rightarrow> bool" where
  "nearBullet b bubbleCoords =
     (case b of
        None \<Rightarrow> False
      | Some p \<Rightarrow> length_Vec2D (sub bubbleCoords p) < 1.12)"

fun collisionScan :: "Vec2D option \<Rightarrow> BubbleGrid \<Rightarrow> Vec2D option" where
  "collisionScan b [] = None"
| "collisionScan b ((index, color) # rest) =
     (if color \<noteq> None \<and> nearBullet b index then Some index else collisionScan b rest)"

definition bulletIsAboutToCollide :: "BubbleShooter \<Rightarrow> bool \<times> BubbleShooter" where
  "bulletIsAboutToCollide s =
     (case collisionScan (bullet s) (bubbles s) of
        Some bubbleCoords \<Rightarrow> (True, s\<lparr>wantedLandingPosition := bubbleCoords\<rparr>)
      | None \<Rightarrow> (False, s))"

definition outsidePlayground :: "Vec2D option \<Rightarrow> bool" where
  "outsidePlayground b =
     (case b of
        None \<Rightarrow> False
      | Some p \<Rightarrow>
          (xc p < - (real PLAYGROUND_WIDTH / 2 + 1) \<or> xc p > real PLAYGROUND_WIDTH / 2 + 1) \<or>
          (yc p < 0 \<or> yc p > real PLAYGROUND_HEIGHT))"

text \<open>
  How a call of \<^verbatim>\<open>fireBullet\<close> ends, and the state it leaves: by the early return of
  the loop, after \<^verbatim>\<open>landBullet\<close>, or with the error \<^verbatim>\<open>landBullet\<close> throws. A flight that
  never ends is the value \<open>None\<close> of \<open>flight\<close>. The awaited delay between two
  iterations is not modelled: one flight runs alone.
\<close>

datatype FlightEnd =
    OutOfBounds BubbleShooter
  | Landed Vec2D BubbleShooter
  | Threw error BubbleShooter

partial_function (option) flight ::
  "Vec2D option \<Rightarrow> Color \<Rightarrow> BubbleShooter \<Rightarrow> FlightEnd option" where
  "flight directionVector sampled s =
     (if fst (bulletIsAboutToCollide s)
      then Some (case landBullet sampled (snd (bulletIsAboutToCollide s)) of
                   Inl e \<Rightarrow> Threw e (snd (bulletIsAboutToCollide s))
                 | Inr (p, t) \<Rightarrow> Landed p t)
      else if outsidePlayground (bullet s)
      then Some (OutOfBounds (newRound sampled (updateScore (s\<lparr>score := score s - 10\<rparr>))))
      else flight directionVector sampled
             (s\<lparr>bullet := map_option (\<lambda>d. add (Vec2D 0 0) (scalarMul d (time s))) directionVector,
                time := time s + 0.75\<rparr>))"

text \<open>
  The aim is normalised once, before the loop. The length of a vector is zero only when
  both components are, and then both quotients are \<^verbatim>\<open>0 / 0\<close>, that is \<^verbatim>\<open>NaN\<close>.
\<close>

definition fireBullet :: "Color \<Rightarrow> BubbleShooter \<Rightarrow> FlightEnd option" where
  "fireBullet sampled s =
     (let gunOrigin = Vec2D 0 0;
          directionVector = sub (gun s) gunOrigin
      in flight
           (if length_Vec2D directionVector = 0 then None
            else Some (scalarDiv directionVector (length_Vec2D directionVector)))
           sampled s)"

subsection \<open>Grid creation\<close>

text \<open>
  \<open>pickBulletColor row col\<close> is the colour sampled for the cell of that row and column.
\<close>

definition createBubbleGrid :: "(nat \<Rightarrow> nat \<Rightarrow> Color) \<Rightarrow> BubbleGrid" where
  "createBubbleGrid pickBulletColor =
     fold (\<lambda>row bubbleGrid.
        fold (\<lambda>col bubbleGrid.
           (let offset = (if row mod 2 \<noteq> 0 then 0.5 else 0);
                index = Vec2D (real col + offset - real PLAYGROUND_WIDTH / 2)
                              (- real row + real PLAYGROUND_HEIGHT)
            in AList.update index
                 (if row < 5 then Some (pickBulletColor row col) else None) bubbleGrid))
          [0..<PLAYGROUND_WIDTH] bubbleGrid)
       [0..<PLAYGROUND_HEIGHT] []"

subsection \<open>Aiming\<close>

definition MATRIX_ROTATE_COUNTERCLOCKWISE :: "(real \<times> real) \<times> (real \<times> real)" where
  "MATRIX_ROTATE_COUNTERCLOCKWISE =
     ((cos (pi / 360), sin (pi / 360)), (- sin (pi / 360), cos (pi / 360)))"

definition MATRIX_ROTATE_CLOCKWISE :: "(real \<times> real) \<times> (real \<times> real)" where
  "MATRIX_ROTATE_CLOCKWISE =
     ((cos (pi / 360), - sin (pi / 360)), (sin (pi / 360), cos (pi / 360)))"

definition matrixVectorMul :: "(real \<times> real) \<times> (real \<times> real) \<Rightarrow> Vec2D \<Rightarrow> Vec2D" where
  "matrixVectorMul matrix vector =
     (let (col1, col2) = matrix;
          rotatedCol1 = (fst col1 * xc vector, snd col1 * xc vector);
          rotatedCol2 = (fst col2 * yc vector, snd col2 * yc vector)
      in Vec2D (fst rotatedCol1 + fst rotatedCol2) (snd rotatedCol1 + snd rotatedCol2))"

definition rotate :: "Vec2D \<Rightarrow> Direction \<Rightarrow> Vec2D" where
  "rotate point direction =
     matrixVectorMul
       (case direction of
          Left \<Rightarrow> MATRIX_ROTATE_COUNTERCLOCKWISE
        | Right \<Rightarrow> MATRIX_ROTATE_CLOCKWISE)
       point"

definition rotateGun :: "Direction \<Rightarrow> BubbleShooter \<Rightarrow> BubbleShooter" where
  "rotateGun direction s = s\<lparr>gun := rotate (gun s) direction\<rparr>"

definition SCALE :: real where
  "SCALE = 10"

definition canvas2Math :: "Vec2D \<Rightarrow> Vec2D" where
  "canvas2Math vector =
     Vec2D (xc vector / (2 * SCALE) - real PLAYGROUND_WIDTH / 2)
           (- yc vector / (2 * SCALE) + real PLAYGROUND_HEIGHT)"

text \<open>The handler of \<^verbatim>\<open>mousemove\<close> in \<^verbatim>\<open>main\<close>, at the offsets of the event.\<close>

definition mousemove :: "real \<Rightarrow> real \<Rightarrow> BubbleShooter \<Rightarrow> BubbleShooter" where
  "mousemove offsetX offsetY s = s\<lparr>gun := canvas2Math (Vec2D offsetX offsetY)\<rparr>"

section \<open>Notions for the statements\<close>

text \<open>
  \<open>clearsOnly col g g'\<close>: the grid \<open>g'\<close> has the keys of \<open>g\<close> in the same order, and
  differs from it only in cells of colour \<open>col\<close> that are free in \<open>g'\<close>.
\<close>

definition clearsOnly :: "Color \<Rightarrow> BubbleGrid \<Rightarrow> BubbleGrid \<Rightarrow> bool" where
  "clearsOnly col g g' =
     (map fst g' = map fst g \<and>
      (\<forall>x. map_of g' x = map_of g x \<or>
           (map_of g x = Some (Some col) \<and> map_of g' x = Some None)))"

text \<open>
  \<open>targets s ks\<close>: every key of \<open>ks\<close> is a cell of the grid that has the colour of the
  bullet or is free, as the keys are that the loop of \<open>explode\<close> visits.
\<close>

definition targets :: "BubbleShooter \<Rightarrow> Vec2D list \<Rightarrow> bool" where
  "targets s ks =
     (\<forall>k \<in> set ks. map_of (bubbles s) k = Some (Some (bulletColor s)) \<or>
                   map_of (bubbles s) k = Some None)"

text \<open>The cell of a row and a column, for a grid of width \<open>w\<close> and height \<open>h\<close>.\<close>

definition cell ::
  "nat \<Rightarrow> nat \<Rightarrow> (nat \<Rightarrow> nat \<Rightarrow> Color) \<Rightarrow> nat \<Rightarrow> nat \<Rightarrow> Vec2D \<times> Color option" where
  "cell w h pickBulletColor row col =
     (Vec2D (real col + (if odd row then 0.5 else 0) - real w / 2) (- real row + real h),
      if row < 5 then Some (pickBulletColor row col) else None)"

text \<open>\<open>neighbour coord k\<close>: the test of the first loop of \<^verbatim>\<open>getSurroundingBubbles\<close>.\<close>

definition neighbour :: "Vec2D \<Rightarrow> Vec2D \<Rightarrow> bool" where
  "neighbour coord k \<longleftrightarrow>
     (xc k = xc coord - 0.5 \<and> yc k = yc coord + 1) \<or>
     (xc k = xc coord + 0.5 \<and> yc k = yc coord + 1) \<or>
     (xc k = xc coord - 1 \<and> yc k = yc coord) \<or>
     (xc k = xc coord + 1 \<and> yc k = yc coord) \<or>
     (xc k = xc coord - 0.5 \<and> yc k = yc coord - 1) \<or>
     (xc k = xc coord + 0.5 \<and> yc k = yc coord - 1)"

text \<open>
  \<open>isChain g col coord path\<close>: the cells of \<open>path\<close> have colour \<open>col\<close> in \<open>g\<close>, the first
  is a neighbour of \<open>coord\<close> and each next one a neighbour of the one before.
\<close>

fun isChain :: "BubbleGrid \<Rightarrow> Color \<Rightarrow> Vec2D \<Rightarrow> Vec2D list \<Rightarrow> bool" where
  "isChain g col coord [] = True"
| "isChain g col coord (k # path) =
     (neighbour coord k \<and> map_of g k = Some (Some col) \<and> isChain g col k path)"

text \<open>\<open>sealed col g x\<close>: no neighbour of \<open>x\<close> has colour \<open>col\<close> in \<open>g\<close>.\<close>

definition sealed :: "Color \<Rightarrow> BubbleGrid \<Rightarrow> Vec2D \<Rightarrow> bool" where
  "sealed col g x = (\<forall>n. neighbour x n \<longrightarrow> map_of g n \<noteq> Some (Some col))"

text \<open>
  The number of coloured cells of a grid, and the number of cells that are coloured in \<open>g\<close>
  and free in \<open>g'\<close>: the cells cleared between the two.
\<close>

definition colored :: "BubbleGrid \<Rightarrow> nat" where
  "colored g = length (filter (\<lambda>k. map_of g k \<noteq> Some None) (map fst g))"

definition cellsCleared :: "BubbleGrid \<Rightarrow> BubbleGrid \<Rightarrow> nat" where
  "cellsCleared g g' =
     length (filter (\<lambda>k. map_of g k \<noteq> Some None \<and> map_of g' k = Some None) (map fst g))"

text \<open>The state a call of \<^verbatim>\<open>fireBullet\<close> leaves.\<close>

fun endState :: "FlightEnd \<Rightarrow> BubbleShooter" where
  "endState (OutOfBounds t) = t"
| "endState (Landed p t) = t"
| "endState (Threw e t) = t"

text \<open>
  \<open>play s cleared missed t\<close>: some sequence of aimings and shots leads from \<open>s\<close> to \<open>t\<close>;
  its explosions cleared \<open>cleared\<close> cells in all, counted for each landing between the grid
  with the bullet placed and the grid after the explosion, and \<open>missed\<close> of its shots left
  the play area.
\<close>

inductive play :: "BubbleShooter \<Rightarrow> nat \<Rightarrow> nat \<Rightarrow> BubbleShooter \<Rightarrow> bool" for s where
  start: "play s 0 0 s"
| aim: "play s cleared missed t \<Longrightarrow> play s cleared missed (mousemove offsetX offsetY t)"
| turn: "play s cleared missed t \<Longrightarrow> play s cleared missed (rotateGun direction t)"
| miss: "play s cleared missed t \<Longrightarrow> fireBullet sampled t = Some (OutOfBounds t') \<Longrightarrow>
     play s cleared (Suc missed) t'"
| land: "play s cleared missed t \<Longrightarrow> fireBullet sampled t = Some (Landed p t') \<Longrightarrow>
     play s (cleared + cellsCleared (AList.update p (Some (bulletColor t)) (bubbles t)) (bubbles t'))
       missed t'"
| throw: "play s cleared missed t \<Longrightarrow> fireBullet sampled t = Some (Threw e t') \<Longrightarrow>
     play s cleared missed t'"

text \<open>
  A game of two shots, used to instantiate the theorems on sequences of shots. A blue bullet
  is fired at once into the blue bubble at (0.5, 1): it lands on the free cell at
  (-0.5, 1), and the two bubbles explode. The aim is then moved straight down and the
  second bullet leaves the play area.
\<close>

definition game0 :: BubbleShooter where
  "game0 = \<lparr>gun = Vec2D 0 1,
      bubbles = [(Vec2D (1/2) 1, Some Blue), (Vec2D (-1/2) 1, None), (Vec2D (3/2) 1, None)],
      bullet = Some (Vec2D 0 0), bulletColor = Blue, time = 0, score = 0,
      wantedLandingPosition = Vec2D 0 0, scoreText = []\<rparr>"

definition game1 :: BubbleShooter where
  "game1 = \<lparr>gun = Vec2D 0 1,
      bubbles = [(Vec2D (1/2) 1, None), (Vec2D (-1/2) 1, None), (Vec2D (3/2) 1, None)],
      bullet = Some (Vec2D 0 0), bulletColor = Orange, time = 0, score = 20,
      wantedLandingPosition = Vec2D (1/2) 1, scoreText = [SCORE 10, SCORE 20, YOU_WON]\<rparr>"

definition game2 :: BubbleShooter where
  "game2 = \<lparr>gun = Vec2D 0 (-1),
      bubbles = [(Vec2D (1/2) 1, None), (Vec2D (-1/2) 1, None), (Vec2D (3/2) 1, None)],
      bullet = Some (Vec2D 0 0), bulletColor = White, time = 0, score = 10,
      wantedLandingPosition = Vec2D (1/2) 1,
      scoreText = [SCORE 10, SCORE 20, YOU_WON, SCORE 10, YOU_WON]\<rparr>"

text \<open>
  The game after a win: the grid of \<open>createBubbleGrid\<close> with every bubble cleared, and a
  new round begun.
\<close>

definition wonGame :: BubbleShooter where
  "wonGame = \<lparr>gun = createGun,
      bubbles = map (\<lambda>(k, c). (k, None)) (createBubbleGrid (\<lambda>row col. Orange)),
      bullet = Some createBullet, bulletColor = Blue, time = 0, score = 2000,
      wantedLandingPosition = Vec2D 0 0, scoreText = [YOU_WON]\<rparr>"

section \<open>Lemmas on the neighbours\<close>

lemma getSurroundingBubbles_Nil [simp]: "getSurroundingBubbles [] coord keepOnly = []"
  by (simp add: getSurroundingBubbles_def)

lemma getSurroundingBubbles_distinct:
  "distinct (map fst g) \<Longrightarrow> distinct (map fst (getSurroundingBubbles g coord keepOnly))"
  by (simp add: getSurroundingBubbles_def distinct_map_filter)

lemma getSurroundingBubbles_offsets:
  "(k, c) \<in> set (getSurroundingBubbles g coord keepOnly) \<Longrightarrow>
   k \<in> {Vec2D (xc coord - 0.5) (yc coord + 1), Vec2D (xc coord + 0.5) (yc coord + 1),
        Vec2D (xc coord - 1) (yc coord), Vec2D (xc coord + 1) (yc coord),
        Vec2D (xc coord - 0.5) (yc coord - 1), Vec2D (xc coord + 0.5) (yc coord - 1)}"
  by (cases k) (auto simp: getSurroundingBubbles_def)

text \<open>
  C6. For every coordinate, the neighbour enumeration of a grid (an object: its keys are
  distinct) returns at most six cells; each lies at one of the six offsets
  (-0.5, +1), (+0.5, +1), (-1, 0), (+1, 0), (-0.5, -1), (+0.5, -1) from the coordinate
  under exact equality, and each is an entry of the grid, so that positions outside the
  grid are left out.
\<close>

theorem getSurroundingBubbles_at_most_six_lattice_neighbours:
  assumes "distinct (map fst g)"
  shows "length (getSurroundingBubbles g coord keepOnly) \<le> 6 \<and>
         (\<forall>(k, c) \<in> set (getSurroundingBubbles g coord keepOnly).
            (k = Vec2D (xc coord - 0.5) (yc coord + 1) \<or>
             k = Vec2D (xc coord + 0.5) (yc coord + 1) \<or>
             k = Vec2D (xc coord - 1) (yc coord) \<or>
             k = Vec2D (xc coord + 1) (yc coord) \<or>
             k = Vec2D (xc coord - 0.5) (yc coord - 1) \<or>
             k = Vec2D (xc coord + 0.5) (yc coord - 1)) \<and>
            (k, c) \<in> set g \<and> map_of g k = Some c)"
proof -
  let ?r = "getSurroundingBubbles g coord keepOnly"
  let ?six = "{Vec2D (xc coord - 0.5) (yc coord + 1), Vec2D (xc coord + 0.5) (yc coord + 1),
        Vec2D (xc coord - 1) (yc coord), Vec2D (xc coord + 1) (yc coord),
        Vec2D (xc coord - 0.5) (yc coord - 1), Vec2D (xc coord + 0.5) (yc coord - 1)}"
  have d: "distinct (map fst ?r)"
    using assms by (rule getSurroundingBubbles_distinct)
  have sub: "set (map fst ?r) \<subseteq> ?six"
    using getSurroundingBubbles_offsets [of _ _ g coord keepOnly] by fastforce
  have "length ?r = card (set (map fst ?r))"
    using d by (metis distinct_card length_map)
  also have "\<dots> \<le> card ?six"
    using sub by (intro card_mono) simp_all
  also have "\<dots> \<le> 6"
    using card_length [of "[Vec2D (xc coord - 0.5) (yc coord + 1),
        Vec2D (xc coord + 0.5) (yc coord + 1), Vec2D (xc coord - 1) (yc coord),
        Vec2D (xc coord + 1) (yc coord), Vec2D (xc coord - 0.5) (yc coord - 1),
        Vec2D (xc coord + 0.5) (yc coord - 1)]"]
    by simp
  finally have len: "length ?r \<le> 6" .
  have "(k = Vec2D (xc coord - 0.5) (yc coord + 1) \<or>
             k = Vec2D (xc coord + 0.5) (yc coord + 1) \<or>
             k = Vec2D (xc coord - 1) (yc coord) \<or>
             k = Vec2D (xc coord + 1) (yc coord) \<or>
             k = Vec2D (xc coord - 0.5) (yc coord - 1) \<or>
             k = Vec2D (xc coord + 0.5) (yc coord - 1)) \<and>
            (k, c) \<in> set g \<and> map_of g k = Some c"
    if "(k, c) \<in> set ?r" for k c
  proof -
    from that have "(k, c) \<in> set g"
      using getSurroundingBubbles_subset by blast
    moreover from this assms have "map_of g k = Some c" by simp
    moreover from that have "k \<in> ?six" by (rule getSurroundingBubbles_offsets)
    ultimately show ?thesis by simp
  qed
  with len show ?thesis by blast
qed

theorem getSurroundingBubbles_at_most_six_lattice_neighbours_witness:
  "distinct (map fst [(Vec2D 0 2, Some Orange), (Vec2D 1 2, None), (Vec2D (1/2) 1, None),
      (Vec2D 3 3, Some Blue)]) \<and>
   getSurroundingBubbles [(Vec2D 0 2, Some Orange), (Vec2D 1 2, None), (Vec2D (1/2) 1, None),
      (Vec2D 3 3, Some Blue)] (Vec2D 0 2) None = [(Vec2D 1 2, None), (Vec2D (1/2) 1, None)] \<and>
   length (getSurroundingBubbles [(Vec2D 0 2, Some Orange), (Vec2D 1 2, None),
      (Vec2D (1/2) 1, None), (Vec2D 3 3, Some Blue)] (Vec2D 0 2) None) \<le> 6"
  using getSurroundingBubbles_at_most_six_lattice_neighbours
    [of "[(Vec2D 0 2, Some Orange), (Vec2D 1 2, None), (Vec2D (1/2) 1, None),
      (Vec2D 3 3, Some Blue)]" "Vec2D 0 2" None]
  by (simp add: getSurroundingBubbles_def)

section \<open>Isolated landings\<close>

text \<open>
  C10. If the cell on which \<open>explode\<close> is called has no neighbour of the colour of the
  bullet, the explosion changes nothing: the grid, the score and all the rest of the state
  are as before. In particular the bubble just placed there keeps its colour.
\<close>

theorem explode_isolated_unchanged:
  assumes "getSurroundingBubbles (bubbles s) coord (Some (bulletColor s)) = []"
  shows "explode s coord = s \<and>
         bubbles (explode s coord) = bubbles s \<and>
         score (explode s coord) = score s \<and>
         map_of (bubbles (explode s coord)) coord = map_of (bubbles s) coord"
  using assms by simp

theorem explode_isolated_unchanged_witness:
  "getSurroundingBubbles
     [(Vec2D 0 2, Some Orange), (Vec2D 1 2, Some Blue), (Vec2D (1/2) 1, None)]
     (Vec2D 1 2) (Some Blue) = [] \<and>
   map_of (bubbles (explode
     \<lparr>gun = Vec2D 0 1,
      bubbles = [(Vec2D 0 2, Some Orange), (Vec2D 1 2, Some Blue), (Vec2D (1/2) 1, None)],
      bullet = Some (Vec2D 1 2), bulletColor = Blue, time = 3, score = 0,
      wantedLandingPosition = Vec2D 0 2, scoreText = []\<rparr> (Vec2D 1 2))) (Vec2D 1 2)
     = Some (Some Blue)"
  using explode_isolated_unchanged
    [of "\<lparr>gun = Vec2D 0 1,
      bubbles = [(Vec2D 0 2, Some Orange), (Vec2D 1 2, Some Blue), (Vec2D (1/2) 1, None)],
      bullet = Some (Vec2D 1 2), bulletColor = Blue, time = 3, score = 0,
      wantedLandingPosition = Vec2D 0 2, scoreText = []\<rparr>" "Vec2D 1 2"]
  by (simp add: getSurroundingBubbles_def)

section \<open>What an explosion changes\<close>

lemma clearsOnly_refl: "clearsOnly col g g"
  by (simp add: clearsOnly_def)

lemma clearsOnly_trans:
  "clearsOnly col g g' \<Longrightarrow> clearsOnly col g' g'' \<Longrightarrow> clearsOnly col g g''"
  unfolding clearsOnly_def by (metis option.inject option.distinct(1))

lemma clearsOnly_update:
  "map_of g k = Some (Some col) \<Longrightarrow> clearsOnly col g (AList.update k None g)"
  by (auto simp: clearsOnly_def update_keys update_conv dest: map_of_SomeD intro: rev_image_eqI)

lemma clearsOnly_distinct:
  "clearsOnly col g g' \<Longrightarrow> distinct (map fst g) \<Longrightarrow> distinct (map fst g')"
  by (simp add: clearsOnly_def)

lemma getSurroundingBubbles_targets:
  assumes "distinct (map fst (bubbles s))"
  shows "targets s (map fst (getSurroundingBubbles (bubbles s) coord (Some (bulletColor s))))"
proof -
  have "map_of (bubbles s) k = Some (Some (bulletColor s))"
    if "(k, v) \<in> set (getSurroundingBubbles (bubbles s) coord (Some (bulletColor s)))" for k v
  proof -
    from that have "(k, v) \<in> set (bubbles s)" "v = Some (bulletColor s)"
      by (auto simp: getSurroundingBubbles_def)
    with assms show ?thesis by simp
  qed
  then show ?thesis by (auto simp: targets_def)
qed

lemma targets_clearsOnly:
  "targets s ks \<Longrightarrow> clearsOnly (bulletColor s) (bubbles s) (bubbles t) \<Longrightarrow>
   bulletColor t = bulletColor s \<Longrightarrow> targets t ks"
  unfolding targets_def clearsOnly_def by metis

lemma explode_bulletColor:
  "bulletColor (explode s coord) = bulletColor s"
  "bulletColor (explodeEach s ks) = bulletColor s"
  by (induct s coord and s ks rule: explode_explodeEach.induct)
     (simp_all add: updateScore_def)

lemma explode_clearsOnly:
  "distinct (map fst (bubbles s)) \<Longrightarrow>
     clearsOnly (bulletColor s) (bubbles s) (bubbles (explode s coord))"
  "distinct (map fst (bubbles s)) \<Longrightarrow> targets s ks \<Longrightarrow>
     clearsOnly (bulletColor s) (bubbles s) (bubbles (explodeEach s ks))"
proof (induct s coord and s ks rule: explode_explodeEach.induct)
  case (1 s coord)
  then show ?case by (simp add: getSurroundingBubbles_targets)
next
  case (2 s)
  show ?case by (simp add: clearsOnly_refl)
next
  case (3 s k rest)
  let ?col = "bulletColor s"
  let ?s' = "(updateScore (s\<lparr>score := score s + 10\<rparr>))\<lparr>bubbles := AList.update k None (bubbles s)\<rparr>"
  from 3(5) have rest: "targets s rest" by (simp add: targets_def)
  show ?case
  proof (cases "map_of (bubbles s) k \<noteq> Some None")
    case True
    with 3(5) have k: "map_of (bubbles s) k = Some (Some ?col)" by (simp add: targets_def)
    have col': "bulletColor ?s' = ?col" by (simp add: updateScore_def)
    have a: "clearsOnly ?col (bubbles s) (bubbles ?s')"
      using k by (simp add: clearsOnly_update)
    then have d': "distinct (map fst (bubbles ?s'))"
      using 3(4) by (rule clearsOnly_distinct)
    have b: "clearsOnly ?col (bubbles ?s') (bubbles (explode ?s' k))"
      using 3(1) [OF True d'] col' by simp
    have ab: "clearsOnly ?col (bubbles s) (bubbles (explode ?s' k))"
      using a b by (rule clearsOnly_trans)
    have d'': "distinct (map fst (bubbles (explode ?s' k)))"
      using ab 3(4) by (rule clearsOnly_distinct)
    have col'': "bulletColor (explode ?s' k) = ?col"
      by (simp add: explode_bulletColor updateScore_def)
    have "targets (explode ?s' k) rest"
      using rest ab col'' by (rule targets_clearsOnly)
    from 3(2) [OF True d'' this] col''
    have "clearsOnly ?col (bubbles (explode ?s' k)) (bubbles (explodeEach (explode ?s' k) rest))"
      by simp
    with ab have "clearsOnly ?col (bubbles s) (bubbles (explodeEach (explode ?s' k) rest))"
      by (rule clearsOnly_trans)
    with True show ?thesis by simp
  next
    case False
    with 3(3) [OF _ 3(4) rest] show ?thesis by simp
  qed
qed

section \<open>The win condition\<close>

text \<open>
  C4. \<open>newRound\<close>, the last step of every round, writes the text of the win exactly when
  every cell of the grid is free; otherwise it writes nothing, so a grid with one coloured
  cell left does not trigger the win. The grid itself is not touched.
\<close>

theorem newRound_declares_win_iff_all_empty:
  "(scoreText (newRound sampled s) = scoreText s @ [YOU_WON]
      \<longleftrightarrow> (\<forall>c \<in> set (bubbles s). snd c = None)) \<and>
   (scoreText (newRound sampled s) = scoreText s
      \<longleftrightarrow> (\<exists>c \<in> set (bubbles s). snd c \<noteq> None)) \<and>
   bubbles (newRound sampled s) = bubbles s"
  by (auto simp: newRound_def declareWin_def Let_def list_all_iff)

theorem newRound_declares_win_iff_all_empty_witness:
  "scoreText (newRound Orange
     \<lparr>gun = Vec2D 0 1, bubbles = [(Vec2D 0 2, None), (Vec2D 1 2, Some Blue)],
      bullet = Some (Vec2D 0 0), bulletColor = Blue, time = 0, score = 30,
      wantedLandingPosition = Vec2D 0 0, scoreText = [SCORE 30]\<rparr>) = [SCORE 30] \<and>
   scoreText (newRound Orange
     \<lparr>gun = Vec2D 0 1, bubbles = [(Vec2D 0 2, None), (Vec2D 1 2, None)],
      bullet = Some (Vec2D 0 0), bulletColor = Blue, time = 0, score = 30,
      wantedLandingPosition = Vec2D 0 0, scoreText = [SCORE 30]\<rparr>) = [SCORE 30, YOU_WON]"
  using newRound_declares_win_iff_all_empty [of Orange
     "\<lparr>gun = Vec2D 0 1, bubbles = [(Vec2D 0 2, None), (Vec2D 1 2, Some Blue)],
      bullet = Some (Vec2D 0 0), bulletColor = Blue, time = 0, score = 30,
      wantedLandingPosition = Vec2D 0 0, scoreText = [SCORE 30]\<rparr>"]
    newRound_declares_win_iff_all_empty [of Orange
     "\<lparr>gun = Vec2D 0 1, bubbles = [(Vec2D 0 2, None), (Vec2D 1 2, None)],
      bullet = Some (Vec2D 0 0), bulletColor = Blue, time = 0, score = 30,
      wantedLandingPosition = Vec2D 0 0, scoreText = [SCORE 30]\<rparr>"]
  by simp

section \<open>Grid creation\<close>

lemma update_absent_append:
  "k \<notin> fst ` set g \<Longrightarrow> AList.update k v g = g @ [(k, v)]"
  by (induction g) auto

lemma fold_update_append:
  "distinct xs \<Longrightarrow> inj_on f (set xs) \<Longrightarrow> \<forall>x \<in> set xs. f x \<notin> fst ` set g \<Longrightarrow>
   fold (\<lambda>x. AList.update (f x) (v x)) xs g = g @ map (\<lambda>x. (f x, v x)) xs"
proof (induction xs arbitrary: g)
  case Nil
  show ?case by simp
next
  case (Cons x xs)
  have "\<forall>y \<in> set xs. f y \<notin> fst ` set (g @ [(f x, v x)])"
    using Cons.prems by (auto simp: inj_on_def)
  moreover have "distinct xs" "inj_on f (set xs)"
    using Cons.prems by (auto simp: inj_on_def)
  ultimately have "fold (\<lambda>x. AList.update (f x) (v x)) xs (g @ [(f x, v x)])
      = (g @ [(f x, v x)]) @ map (\<lambda>x. (f x, v x)) xs"
    by (intro Cons.IH)
  moreover have "AList.update (f x) (v x) g = g @ [(f x, v x)]"
    using Cons.prems by (intro update_absent_append) simp
  ultimately show ?case by simp
qed

lemma fold_rows:
  "n \<le> h \<Longrightarrow>
   fold (\<lambda>row bubbleGrid.
        fold (\<lambda>col bubbleGrid.
           (let offset = (if row mod 2 \<noteq> 0 then 0.5 else 0);
                index = Vec2D (real col + offset - real w / 2) (- real row + real h)
            in AList.update index
                 (if row < 5 then Some (pick row col) else None) bubbleGrid))
          [0..<w] bubbleGrid)
       [0..<n] []
   = concat (map (\<lambda>row. map (cell w h pick row) [0..<w]) [0..<n])"
proof (induction n)
  case 0
  show ?case by simp
next
  case (Suc n)
  let ?g = "concat (map (\<lambda>row. map (cell w h pick row) [0..<w]) [0..<n])"
  let ?f = "\<lambda>col. Vec2D (real col + (if n mod 2 \<noteq> 0 then 0.5 else 0) - real w / 2)
                (- real n + real h)"
  let ?v = "\<lambda>col. if n < 5 then Some (pick n col) else None"
  have fresh: "\<forall>col \<in> set [0..<w]. ?f col \<notin> fst ` set ?g"
    by (auto simp: cell_def)
  have inj: "inj_on ?f (set [0..<w])"
    by (auto simp: inj_on_def)
  have "fold (\<lambda>col. AList.update (?f col) (?v col)) [0..<w] ?g
      = ?g @ map (\<lambda>col. (?f col, ?v col)) [0..<w]"
    using distinct_upt inj fresh by (rule fold_update_append)
  moreover have "map (\<lambda>col. (?f col, ?v col)) [0..<w] = map (cell w h pick n) [0..<w]"
    by (simp add: cell_def odd_iff_mod_2_eq_one)
  ultimately show ?case
    using Suc by (simp add: Let_def)
qed

lemma distinct_cells:
  "distinct (map fst (concat (map (\<lambda>row. map (cell w h pick row) [0..<w]) [0..<n])))"
proof (induction n)
  case 0
  show ?case by simp
next
  case (Suc n)
  have "distinct (map fst (map (cell w h pick n) [0..<w]))"
    by (auto simp: distinct_map inj_on_def cell_def)
  moreover have "fst ` set (map (cell w h pick n) [0..<w]) \<inter>
      fst ` set (concat (map (\<lambda>row. map (cell w h pick row) [0..<w]) [0..<n])) = {}"
    by (auto simp: cell_def)
  ultimately show ?case
    using Suc by (auto simp: image_Un)
qed

text \<open>
  C9. Grid creation yields, in the order of the two loops, one entry for each row \<open>r\<close> below
  the height and each column \<open>c\<close> below the width, at the coordinate
  \<open>x = c + (if r is odd then 0.5 else 0) - width / 2\<close>, \<open>y = - r + height\<close>, coloured with
  the colour sampled for it when \<open>r < 5\<close> and free otherwise; no two of these entries
  share a key, so the grid has width times height cells.
\<close>

theorem createBubbleGrid_dense:
  "createBubbleGrid pickBulletColor =
     concat (map (\<lambda>row. map (\<lambda>col.
         (Vec2D (real col + (if odd row then 0.5 else 0) - real PLAYGROUND_WIDTH / 2)
                (- real row + real PLAYGROUND_HEIGHT),
          if row < 5 then Some (pickBulletColor row col) else None))
       [0..<PLAYGROUND_WIDTH]) [0..<PLAYGROUND_HEIGHT]) \<and>
   distinct (map fst (createBubbleGrid pickBulletColor)) \<and>
   length (createBubbleGrid pickBulletColor) = PLAYGROUND_WIDTH * PLAYGROUND_HEIGHT"
proof -
  let ?cells = "concat (map (\<lambda>row. map (cell PLAYGROUND_WIDTH PLAYGROUND_HEIGHT pickBulletColor row)
      [0..<PLAYGROUND_WIDTH]) [0..<PLAYGROUND_HEIGHT])"
  have eq: "createBubbleGrid pickBulletColor = ?cells"
    unfolding createBubbleGrid_def by (rule fold_rows) simp
  have "length ?cells = PLAYGROUND_WIDTH * PLAYGROUND_HEIGHT"
    by (simp add: length_concat comp_def sum_list_triv)
  with eq distinct_cells [of PLAYGROUND_WIDTH PLAYGROUND_HEIGHT pickBulletColor PLAYGROUND_HEIGHT]
  show ?thesis
    unfolding cell_def by simp
qed

section \<open>The collision test\<close>

lemma collisionScan_None:
  "collisionScan b g = None \<longleftrightarrow> (\<forall>(k, c) \<in> set g. c = None \<or> \<not> nearBullet b k)"
  by (induction b g rule: collisionScan.induct) auto

lemma collisionScan_Some:
  "collisionScan b g = Some k \<Longrightarrow>
   \<exists>pre c post. g = pre @ (k, Some c) # post \<and> nearBullet b k \<and>
     (\<forall>(k', c') \<in> set pre. c' = None \<or> \<not> nearBullet b k')"
proof (induction b g rule: collisionScan.induct)
  case (1 b)
  then show ?case by simp
next
  case (2 b index color rest)
  show ?case
  proof (cases "color \<noteq> None \<and> nearBullet b index")
    case True
    with 2(2) have "k = index" by simp
    moreover from True obtain c where "color = Some c" by auto
    ultimately have "(index, color) # rest = [] @ (k, Some c) # rest \<and> nearBullet b k \<and>
        (\<forall>(k', c') \<in> set []. c' = None \<or> \<not> nearBullet b k')"
      using True by simp
    then show ?thesis by blast
  next
    case False
    with 2 obtain pre c post where
      *: "rest = pre @ (k, Some c) # post" "nearBullet b k"
         "\<forall>(k', c') \<in> set pre. c' = None \<or> \<not> nearBullet b k'"
      by auto
    then have "(index, color) # rest = ((index, color) # pre) @ (k, Some c) # post \<and>
        nearBullet b k \<and>
        (\<forall>(k', c') \<in> set ((index, color) # pre). c' = None \<or> \<not> nearBullet b k')"
      using False by auto
    then show ?thesis by blast
  qed
qed

text \<open>
  C7. The collision test answers true exactly when some coloured cell of the grid lies at a
  Euclidean distance strictly below 1.12 from the current position of the bullet. It then
  records as wanted landing position the first such cell in the enumeration order of the
  grid, and changes nothing else; when it answers false it changes nothing. The loop of the
  flight runs the test on the current position before anything else: on true the bullet
  lands without being moved, wherever it is, and only on false (and inside the play area)
  is the position updated and the time advanced by 0.75.
\<close>

theorem bulletIsAboutToCollide_first_close_coloured_cell:
  "(fst (bulletIsAboutToCollide s) \<longleftrightarrow>
      (\<exists>p. bullet s = Some p \<and>
           (\<exists>(k, c) \<in> set (bubbles s). c \<noteq> None \<and> length_Vec2D (sub k p) < 1.12))) \<and>
   (fst (bulletIsAboutToCollide s) \<longrightarrow>
      (\<exists>pre k c post p.
          bubbles s = pre @ (k, Some c) # post \<and>
          bullet s = Some p \<and> length_Vec2D (sub k p) < 1.12 \<and>
          (\<forall>(k', c') \<in> set pre. c' = None \<or> \<not> length_Vec2D (sub k' p) < 1.12) \<and>
          snd (bulletIsAboutToCollide s) = s\<lparr>wantedLandingPosition := k\<rparr>)) \<and>
   (\<not> fst (bulletIsAboutToCollide s) \<longrightarrow> snd (bulletIsAboutToCollide s) = s) \<and>
   (fst (bulletIsAboutToCollide s) \<longrightarrow>
      flight directionVector sampled s =
        Some (case landBullet sampled (snd (bulletIsAboutToCollide s)) of
                Inl e \<Rightarrow> Threw e (snd (bulletIsAboutToCollide s))
              | Inr (p, t) \<Rightarrow> Landed p t)) \<and>
   (\<not> fst (bulletIsAboutToCollide s) \<and> \<not> outsidePlayground (bullet s) \<longrightarrow>
      flight directionVector sampled s =
        flight directionVector sampled
          (s\<lparr>bullet := map_option (\<lambda>d. add (Vec2D 0 0) (scalarMul d (time s))) directionVector,
             time := time s + 0.75\<rparr>))"
proof (intro conjI impI)
  show "fst (bulletIsAboutToCollide s) \<longleftrightarrow>
      (\<exists>p. bullet s = Some p \<and>
           (\<exists>(k, c) \<in> set (bubbles s). c \<noteq> None \<and> length_Vec2D (sub k p) < 1.12))"
  proof (cases "collisionScan (bullet s) (bubbles s)")
    case None
    then show ?thesis
      using collisionScan_None [of "bullet s" "bubbles s"]
      by (fastforce simp: bulletIsAboutToCollide_def nearBullet_def split: option.splits)
  next
    case (Some k)
    from collisionScan_Some [OF this] show ?thesis
      using Some
      by (fastforce simp: bulletIsAboutToCollide_def nearBullet_def split: option.splits)
  qed
next
  assume "fst (bulletIsAboutToCollide s)"
  then obtain k where k: "collisionScan (bullet s) (bubbles s) = Some k"
    by (auto simp: bulletIsAboutToCollide_def split: option.splits)
  from collisionScan_Some [OF this] obtain pre c post where
    *: "bubbles s = pre @ (k, Some c) # post" "nearBullet (bullet s) k"
       "\<forall>(k', c') \<in> set pre. c' = None \<or> \<not> nearBullet (bullet s) k'"
    by blast
  from *(2) obtain p where p: "bullet s = Some p" "length_Vec2D (sub k p) < 1.12"
    by (auto simp: nearBullet_def split: option.splits)
  from *(3) p(1) have "\<forall>(k', c') \<in> set pre. c' = None \<or> \<not> length_Vec2D (sub k' p) < 1.12"
    by (simp add: nearBullet_def)
  moreover have "snd (bulletIsAboutToCollide s) = s\<lparr>wantedLandingPosition := k\<rparr>"
    using k by (simp add: bulletIsAboutToCollide_def)
  ultimately show "\<exists>pre k c post p.
          bubbles s = pre @ (k, Some c) # post \<and>
          bullet s = Some p \<and> length_Vec2D (sub k p) < 1.12 \<and>
          (\<forall>(k', c') \<in> set pre. c' = None \<or> \<not> length_Vec2D (sub k' p) < 1.12) \<and>
          snd (bulletIsAboutToCollide s) = s\<lparr>wantedLandingPosition := k\<rparr>"
    using *(1) p by blast
next
  assume "\<not> fst (bulletIsAboutToCollide s)"
  then show "snd (bulletIsAboutToCollide s) = s"
    by (auto simp: bulletIsAboutToCollide_def split: option.splits)
next
  assume "fst (bulletIsAboutToCollide s)"
  then show "flight directionVector sampled s =
        Some (case landBullet sampled (snd (bulletIsAboutToCollide s)) of
                Inl e \<Rightarrow> Threw e (snd (bulletIsAboutToCollide s))
              | Inr (p, t) \<Rightarrow> Landed p t)"
    by (subst flight.simps) simp
next
  assume "\<not> fst (bulletIsAboutToCollide s) \<and> \<not> outsidePlayground (bullet s)"
  then show "flight directionVector sampled s =
        flight directionVector sampled
          (s\<lparr>bullet := map_option (\<lambda>d. add (Vec2D 0 0) (scalarMul d (time s))) directionVector,
             time := time s + 0.75\<rparr>)"
    by (subst flight.simps) simp
qed

lemma near_squared: "length_Vec2D v < 1.12 \<longleftrightarrow> (xc v)\<^sup>2 + (yc v)\<^sup>2 < 1.2544"
proof -
  have "sqrt 1.2544 = (1.12::real)"
    by (rule real_sqrt_unique) (simp_all add: power2_eq_square)
  then show ?thesis
    unfolding length_Vec2D_def by (metis real_sqrt_less_iff)
qed

lemma nearBullet_Some:
  "nearBullet (Some p) k \<longleftrightarrow> (xc k - xc p)\<^sup>2 + (yc k - yc p)\<^sup>2 < 1.2544"
  unfolding nearBullet_def using near_squared [of "sub k p"] by (simp add: sub_def)

theorem bulletIsAboutToCollide_first_close_coloured_cell_witness:
  "fst (bulletIsAboutToCollide
     \<lparr>gun = Vec2D 0 1,
      bubbles = [(Vec2D (-1/2) 1, None), (Vec2D 2 2, Some Orange),
                 (Vec2D (1/2) 1, Some Blue), (Vec2D 0 1, Some White)],
      bullet = Some (Vec2D 0 0), bulletColor = Blue, time = 0, score = 0,
      wantedLandingPosition = Vec2D 0 0, scoreText = []\<rparr>) \<and>
   wantedLandingPosition (snd (bulletIsAboutToCollide
     \<lparr>gun = Vec2D 0 1,
      bubbles = [(Vec2D (-1/2) 1, None), (Vec2D 2 2, Some Orange),
                 (Vec2D (1/2) 1, Some Blue), (Vec2D 0 1, Some White)],
      bullet = Some (Vec2D 0 0), bulletColor = Blue, time = 0, score = 0,
      wantedLandingPosition = Vec2D 0 0, scoreText = []\<rparr>)) = Vec2D (1/2) 1 \<and>
   flight None Orange
     \<lparr>gun = Vec2D 0 1,
      bubbles = [(Vec2D (-1/2) 1, None), (Vec2D 2 2, Some Orange),
                 (Vec2D (1/2) 1, Some Blue), (Vec2D 0 1, Some White)],
      bullet = Some (Vec2D 0 0), bulletColor = Blue, time = 0, score = 0,
      wantedLandingPosition = Vec2D 0 0, scoreText = []\<rparr> \<noteq> None"
proof -
  let ?s = "\<lparr>gun = Vec2D 0 1,
      bubbles = [(Vec2D (-1/2) 1, None), (Vec2D 2 2, Some Orange),
                 (Vec2D (1/2) 1, Some Blue), (Vec2D 0 1, Some White)],
      bullet = Some (Vec2D 0 0), bulletColor = Blue, time = 0, score = 0,
      wantedLandingPosition = Vec2D 0 0, scoreText = []\<rparr>"
  have scan: "collisionScan (bullet ?s) (bubbles ?s) = Some (Vec2D (1/2) 1)"
    by (simp add: nearBullet_Some power2_eq_square)
  then have hit: "fst (bulletIsAboutToCollide ?s)"
    and w: "wantedLandingPosition (snd (bulletIsAboutToCollide ?s)) = Vec2D (1/2) 1"
    by (simp_all add: bulletIsAboutToCollide_def)
  from bulletIsAboutToCollide_first_close_coloured_cell [of ?s None Orange] hit
  have "flight None Orange ?s \<noteq> None" by simp
  with hit w show ?thesis by simp
qed

section \<open>The landing step\<close>

lemma find_first:
  "\<forall>y \<in> set ys. \<not> P y \<Longrightarrow> P x \<Longrightarrow> find P (ys @ x # zs) = Some x"
  by (induction ys) auto

lemma length_Vec2D_nonneg: "0 \<le> length_Vec2D v"
  by (simp add: length_Vec2D_def)

lemma getSurroundingBubbles_free:
  "(k, c) \<in> set (getSurroundingBubbles g coord None) \<Longrightarrow> c = None"
  by (auto simp: getSurroundingBubbles_def)

text \<open>
  C2. When the wanted landing position has a free neighbour in the grid (an object: its
  keys are distinct), the landing step chooses one of exactly these free neighbours: one
  whose Euclidean distance to the wanted landing position is the least among them, and the
  first such in enumeration order, every free neighbour enumerated before it being strictly
  farther. The cell chosen is free in the grid, never coloured; the step gives it the
  colour of the bullet and leaves every other cell and the keys as they are, before the
  explosion and the new round.
\<close>

theorem landBullet_nearest_free_neighbour:
  assumes "distinct (map fst (bubbles s))"
    and "getSurroundingBubbles (bubbles s) (wantedLandingPosition s) None \<noteq> []"
  shows "\<exists>p pre post.
     getSurroundingBubbles (bubbles s) (wantedLandingPosition s) None = pre @ (p, None) # post \<and>
     (\<forall>(q, c) \<in> set (getSurroundingBubbles (bubbles s) (wantedLandingPosition s) None).
        length_Vec2D (sub p (wantedLandingPosition s))
          \<le> length_Vec2D (sub q (wantedLandingPosition s))) \<and>
     (\<forall>(q, c) \<in> set pre.
        length_Vec2D (sub p (wantedLandingPosition s))
          < length_Vec2D (sub q (wantedLandingPosition s))) \<and>
     map_of (bubbles s) p = Some None \<and>
     finalPosition s = Some p \<and>
     landBullet sampled s =
       Inr (p, newRound sampled
                 (explode
                    (s\<lparr>bullet := Some p,
                       bubbles := AList.update p (Some (bulletColor s)) (bubbles s)\<rparr>)
                    p)) \<and>
     map_of (AList.update p (Some (bulletColor s)) (bubbles s)) p = Some (Some (bulletColor s)) \<and>
     (\<forall>q. q \<noteq> p \<longrightarrow>
        map_of (AList.update p (Some (bulletColor s)) (bubbles s)) q = map_of (bubbles s) q) \<and>
     map fst (AList.update p (Some (bulletColor s)) (bubbles s)) = map fst (bubbles s)"
proof -
  let ?w = "wantedLandingPosition s"
  let ?N = "getSurroundingBubbles (bubbles s) ?w None"
  let ?D = "\<lambda>q. length_Vec2D (sub q ?w)"
  let ?keys = "map fst ?N"
  have dist: "distances s = map (\<lambda>(k, c). (k, ?D k)) ?N"
    by (simp add: distances_def length_Vec2D_nonneg)
  have keys: "map fst (distances s) = ?keys"
    by (simp add: dist comp_def case_prod_unfold)
  have dN: "distinct ?keys"
    using assms(1) by (rule getSurroundingBubbles_distinct)
  have lookup: "map_of (distances s) k = Some (?D k)" if "k \<in> set ?keys" for k
  proof -
    from that have "(k, ?D k) \<in> set (distances s)" by (auto simp: dist)
    moreover have "distinct (map fst (distances s))" using dN keys by simp
    ultimately show ?thesis by simp
  qed
  from assms(2) obtain k0 ks where ks: "?keys = k0 # ks"
    by (cases ?N) auto
  define m where "m = Min (?D ` set ?keys)"
  have "map snd (distances s) = map ?D ?keys"
    by (simp add: dist comp_def case_prod_unfold)
  then have "minDistance s = Some (fold min (map ?D ks) (?D k0))"
    by (simp add: minDistance_def ks)
  also have "fold min (map ?D ks) (?D k0) = Min (set (?D k0 # map ?D ks))"
    by (rule Min.set_eq_fold [symmetric])
  also have "\<dots> = m"
    by (simp add: m_def ks)
  finally have minD: "minDistance s = Some m" .
  have fin: "finite (?D ` set ?keys)" "?D ` set ?keys \<noteq> {}"
    using ks by simp_all
  have m_le: "m \<le> ?D q" if "q \<in> set ?keys" for q
    unfolding m_def using fin(1) that by (intro Min_le) auto
  have "m \<in> ?D ` set ?keys"
    unfolding m_def using fin by (rule Min_in)
  then have "\<exists>k \<in> set ?keys. ?D k = m" by auto
  from split_list_first_prop [OF this] obtain ys p zs where
    split: "?keys = ys @ p # zs" "?D p = m" "\<forall>y \<in> set ys. ?D y \<noteq> m"
    by blast
  let ?P = "\<lambda>d. case minDistance s of None \<Rightarrow> False | Some m \<Rightarrow> map_of (distances s) d = Some m"
  have P_iff: "?P d \<longleftrightarrow> ?D d = m" if "d \<in> set ?keys" for d
    using lookup [OF that] by (simp add: minD)
  have "find ?P (ys @ p # zs) = Some p"
  proof (rule find_first)
    show "\<forall>y \<in> set ys. \<not> ?P y"
      using split P_iff by auto
    show "?P p"
      using split P_iff by auto
  qed
  then have final: "finalPosition s = Some p"
    by (simp add: finalPosition_def keys split(1))
  from split(1) obtain pre e post where
    N: "?N = pre @ e # post" "map fst pre = ys" "fst e = p"
    by (auto simp: map_eq_append_conv map_eq_Cons_conv)
  obtain a b where ab: "e = (a, b)" by (cases e)
  have "(a, b) \<in> set ?N" using N(1) ab by simp
  then have "b = None" by (rule getSurroundingBubbles_free)
  with ab N(3) have e: "e = (p, None)" by simp
  have inN: "(p, None) \<in> set ?N" using N(1) e by simp
  then have "(p, None) \<in> set (bubbles s)"
    using getSurroundingBubbles_subset by blast
  with assms(1) have free: "map_of (bubbles s) p = Some None" by simp
  then have pkey: "p \<in> fst ` set (bubbles s)"
    by (metis domI dom_map_of_conv_image_fst)
  have least: "\<forall>(q, c) \<in> set ?N. ?D p \<le> ?D q"
    using m_le split(2) by force
  have first: "\<forall>(q, c) \<in> set pre. ?D p < ?D q"
  proof (clarify)
    fix q c assume "(q, c) \<in> set pre"
    then have "q \<in> set ys" using N(2) by force
    then have "?D q \<noteq> m" "q \<in> set ?keys" using split by auto
    with m_le [of q] split(2) show "?D p < ?D q" by simp
  qed
  have land: "landBullet sampled s =
       Inr (p, newRound sampled
                 (explode
                    (s\<lparr>bullet := Some p,
                       bubbles := AList.update p (Some (bulletColor s)) (bubbles s)\<rparr>)
                    p))"
    by (simp add: landBullet_def final)
  have "map fst (AList.update p (Some (bulletColor s)) (bubbles s)) = map fst (bubbles s)"
    using pkey by (simp add: update_keys)
  with N(1) e least first free final land show ?thesis
    by (intro exI [of _ p] exI [of _ pre] exI [of _ post]) (simp add: update_conv)
qed

theorem landBullet_nearest_free_neighbour_witness:
  "distinct (map fst [(Vec2D 0 2, Some Orange), (Vec2D (1/2) 1, None), (Vec2D (-1) 2, None),
      (Vec2D 1 2, None)]) \<and>
   getSurroundingBubbles [(Vec2D 0 2, Some Orange), (Vec2D (1/2) 1, None), (Vec2D (-1) 2, None),
      (Vec2D 1 2, None)] (Vec2D 0 2) None
     = [(Vec2D (1/2) 1, None), (Vec2D (-1) 2, None), (Vec2D 1 2, None)] \<and>
   finalPosition
     \<lparr>gun = Vec2D 0 1,
      bubbles = [(Vec2D 0 2, Some Orange), (Vec2D (1/2) 1, None), (Vec2D (-1) 2, None),
        (Vec2D 1 2, None)],
      bullet = Some (Vec2D 0 (3/2)), bulletColor = Blue, time = 9/4, score = 0,
      wantedLandingPosition = Vec2D 0 2, scoreText = []\<rparr> = Some (Vec2D (-1) 2) \<and>
   map_of [(Vec2D 0 2, Some Orange), (Vec2D (1/2) 1, None), (Vec2D (-1) 2, None),
      (Vec2D 1 2, None)] (Vec2D (-1) 2) = Some None"
proof -
  let ?s = "\<lparr>gun = Vec2D 0 1,
      bubbles = [(Vec2D 0 2, Some Orange), (Vec2D (1/2) 1, None), (Vec2D (-1) 2, None),
        (Vec2D 1 2, None)],
      bullet = Some (Vec2D 0 (3/2)), bulletColor = Blue, time = 9/4, score = 0,
      wantedLandingPosition = Vec2D 0 2, scoreText = []\<rparr>"
  have d: "distinct (map fst (bubbles ?s))" by simp
  have n: "getSurroundingBubbles (bubbles ?s) (wantedLandingPosition ?s) None
      = [(Vec2D (1/2) 1, None), (Vec2D (-1) 2, None), (Vec2D 1 2, None)]"
    by (simp add: getSurroundingBubbles_def)
  then have ne: "getSurroundingBubbles (bubbles ?s) (wantedLandingPosition ?s) None \<noteq> []"
    by simp
  have m: "minDistance ?s = Some 1"
    unfolding minDistance_def distances_def n
    by (simp add: length_Vec2D_def sub_def min_def)
  have f: "finalPosition ?s = Some (Vec2D (-1) 2)"
    unfolding finalPosition_def m unfolding distances_def n
    by (simp add: length_Vec2D_def sub_def)
  from landBullet_nearest_free_neighbour [OF d ne, of Orange] f
  have "map_of (bubbles ?s) (Vec2D (-1) 2) = Some None" by auto
  with d n f show ?thesis by simp
qed

section \<open>The explosion clears the component\<close>

lemma neighbour_sym: "neighbour a b \<Longrightarrow> neighbour b a"
  unfolding neighbour_def by (elim disjE conjE) simp_all

lemma getSurroundingBubbles_iff:
  "(k, v) \<in> set (getSurroundingBubbles g coord (Some col)) \<longleftrightarrow>
   (k, v) \<in> set g \<and> neighbour coord k \<and> v = Some col"
  unfolding getSurroundingBubbles_def neighbour_def by (simp; blast)

lemma clearsOnly_not_col:
  "clearsOnly col g g' \<Longrightarrow> map_of g x \<noteq> Some (Some col) \<Longrightarrow> map_of g' x \<noteq> Some (Some col)"
  unfolding clearsOnly_def by (metis option.inject option.distinct(1))

lemma clearsOnly_changed:
  "clearsOnly col g g' \<Longrightarrow> map_of g x = Some (Some col) \<Longrightarrow>
   map_of g' x \<noteq> Some (Some col) \<Longrightarrow> map_of g' x = Some None"
  unfolding clearsOnly_def by metis

lemma sealed_clearsOnly:
  "sealed col g x \<Longrightarrow> clearsOnly col g g' \<Longrightarrow> sealed col g' x"
  unfolding sealed_def using clearsOnly_not_col by blast

lemma explode_seals:
  "distinct (map fst (bubbles s)) \<Longrightarrow>
     sealed (bulletColor s) (bubbles (explode s coord)) coord \<and>
     (\<forall>x. map_of (bubbles (explode s coord)) x \<noteq> map_of (bubbles s) x \<longrightarrow>
          sealed (bulletColor s) (bubbles (explode s coord)) x)"
  "distinct (map fst (bubbles s)) \<Longrightarrow> targets s ks \<Longrightarrow>
     (\<forall>k \<in> set ks. map_of (bubbles (explodeEach s ks)) k \<noteq> Some (Some (bulletColor s))) \<and>
     (\<forall>x. map_of (bubbles (explodeEach s ks)) x \<noteq> map_of (bubbles s) x \<longrightarrow>
          sealed (bulletColor s) (bubbles (explodeEach s ks)) x)"
proof (induct s coord and s ks rule: explode_explodeEach.induct)
  case (1 s coord)
  let ?col = "bulletColor s"
  let ?ks = "map fst (getSurroundingBubbles (bubbles s) coord (Some ?col))"
  let ?t = "explodeEach s ?ks"
  have tg: "targets s ?ks"
    using 1(2) by (rule getSurroundingBubbles_targets)
  from 1(1) [OF 1(2) tg]
  have ks: "\<forall>k \<in> set ?ks. map_of (bubbles ?t) k \<noteq> Some (Some ?col)"
    and ch: "\<forall>x. map_of (bubbles ?t) x \<noteq> map_of (bubbles s) x \<longrightarrow> sealed ?col (bubbles ?t) x"
    by blast+
  have co: "clearsOnly ?col (bubbles s) (bubbles ?t)"
    using 1(2) tg by (rule explode_clearsOnly(2))
  have "map_of (bubbles ?t) n \<noteq> Some (Some ?col)" if n: "neighbour coord n" for n
  proof (cases "map_of (bubbles s) n = Some (Some ?col)")
    case True
    then have "(n, Some ?col) \<in> set (bubbles s)" by (rule map_of_SomeD)
    with n have "(n, Some ?col) \<in> set (getSurroundingBubbles (bubbles s) coord (Some ?col))"
      by (simp add: getSurroundingBubbles_iff)
    then have "n \<in> set ?ks" by force
    with ks show ?thesis by blast
  next
    case False
    with co show ?thesis by (rule clearsOnly_not_col)
  qed
  then have "sealed ?col (bubbles ?t) coord" by (simp add: sealed_def)
  with ch show ?case by simp
next
  case (2 s)
  show ?case by simp
next
  case (3 s k rest)
  let ?col = "bulletColor s"
  let ?s' = "(updateScore (s\<lparr>score := score s + 10\<rparr>))\<lparr>bubbles := AList.update k None (bubbles s)\<rparr>"
  from 3(5) have rest: "targets s rest" by (simp add: targets_def)
  show ?case
  proof (cases "map_of (bubbles s) k \<noteq> Some None")
    case True
    let ?t1 = "explode ?s' k"
    let ?t = "explodeEach ?t1 rest"
    from True 3(5) have k: "map_of (bubbles s) k = Some (Some ?col)" by (simp add: targets_def)
    have col': "bulletColor ?s' = ?col" by (simp add: updateScore_def)
    have col1: "bulletColor ?t1 = ?col"
      by (simp add: explode_bulletColor updateScore_def)
    have c1: "clearsOnly ?col (bubbles s) (bubbles ?s')"
      using k by (simp add: clearsOnly_update)
    then have d': "distinct (map fst (bubbles ?s'))"
      using 3(4) by (rule clearsOnly_distinct)
    have c2: "clearsOnly ?col (bubbles ?s') (bubbles ?t1)"
      using explode_clearsOnly(1) [OF d', of k] col' by simp
    have c12: "clearsOnly ?col (bubbles s) (bubbles ?t1)"
      using c1 c2 by (rule clearsOnly_trans)
    then have d1: "distinct (map fst (bubbles ?t1))"
      using 3(4) by (rule clearsOnly_distinct)
    have tg1: "targets ?t1 rest"
      using rest c12 col1 by (rule targets_clearsOnly)
    have c3: "clearsOnly ?col (bubbles ?t1) (bubbles ?t)"
      using explode_clearsOnly(2) [OF d1 tg1] col1 by simp
    from 3(1) [OF True d'] col'
    have s1: "sealed ?col (bubbles ?t1) k"
      and ch1: "\<forall>x. map_of (bubbles ?t1) x \<noteq> map_of (bubbles ?s') x \<longrightarrow> sealed ?col (bubbles ?t1) x"
      by simp_all
    from 3(2) [OF True d1 tg1] col1
    have r2: "\<forall>k' \<in> set rest. map_of (bubbles ?t) k' \<noteq> Some (Some ?col)"
      and ch2: "\<forall>x. map_of (bubbles ?t) x \<noteq> map_of (bubbles ?t1) x \<longrightarrow> sealed ?col (bubbles ?t) x"
      by simp_all
    have "map_of (bubbles ?s') k = Some None" by (simp add: update_conv)
    then have "map_of (bubbles ?s') k \<noteq> Some (Some ?col)" by simp
    then have "map_of (bubbles ?t1) k \<noteq> Some (Some ?col)"
      using c2 clearsOnly_not_col by blast
    then have kt: "map_of (bubbles ?t) k \<noteq> Some (Some ?col)"
      using c3 clearsOnly_not_col by blast
    have "sealed ?col (bubbles ?t) x" if x: "map_of (bubbles ?t) x \<noteq> map_of (bubbles s) x" for x
    proof (cases "map_of (bubbles ?t) x \<noteq> map_of (bubbles ?t1) x")
      case True
      with ch2 show ?thesis by blast
    next
      case eq: False
      show ?thesis
      proof (cases "map_of (bubbles ?t1) x \<noteq> map_of (bubbles ?s') x")
        case True
        with ch1 have "sealed ?col (bubbles ?t1) x" by blast
        then show ?thesis using c3 by (rule sealed_clearsOnly)
      next
        case False
        with eq x have "map_of (bubbles ?s') x \<noteq> map_of (bubbles s) x" by simp
        then have "x = k" by (auto simp: update_conv split: if_splits)
        with s1 show ?thesis using c3 by (simp add: sealed_clearsOnly)
      qed
    qed
    with kt r2 True show ?thesis by simp
  next
    case False
    then have kn: "map_of (bubbles s) k = Some None" by simp
    have co: "clearsOnly ?col (bubbles s) (bubbles (explodeEach s rest))"
      using 3(4) rest by (rule explode_clearsOnly(2))
    have "map_of (bubbles s) k \<noteq> Some (Some ?col)" using kn by simp
    with co have "map_of (bubbles (explodeEach s rest)) k \<noteq> Some (Some ?col)"
      by (rule clearsOnly_not_col)
    with 3(3) [OF _ 3(4) rest] False show ?thesis by simp
  qed
qed

lemma sealed_chain_cleared:
  assumes co: "clearsOnly col g g'"
    and ch: "\<forall>x. map_of g' x \<noteq> map_of g x \<longrightarrow> sealed col g' x"
  shows "sealed col g' x \<Longrightarrow> isChain g col x path \<Longrightarrow> \<forall>k \<in> set path. map_of g' k = Some None"
proof (induction path arbitrary: x)
  case Nil
  show ?case by simp
next
  case (Cons k path)
  from Cons.prems have n: "neighbour x k" and c: "map_of g k = Some (Some col)"
    and rest: "isChain g col k path"
    by simp_all
  from Cons.prems(1) n have "map_of g' k \<noteq> Some (Some col)" by (simp add: sealed_def)
  with co c have k: "map_of g' k = Some None" by (rule clearsOnly_changed)
  with c ch have "sealed col g' k" by simp
  from Cons.IH [OF this rest] k show ?case by simp
qed

text \<open>
  C1, amended. In a grid whose keys are distinct, let \<open>coord\<close> be a cell of the colour of
  the bullet (the cell just placed) with at least one neighbour of that colour. Then
  \<open>explode\<close> frees \<open>coord\<close> and every cell that a chain of neighbouring cells of that colour
  links to \<open>coord\<close>: the whole component of at least two cells is cleared.
\<close>

theorem explode_clears_component_of_two_or_more:
  assumes "distinct (map fst (bubbles s))"
    and "map_of (bubbles s) coord = Some (Some (bulletColor s))"
    and "isChain (bubbles s) (bulletColor s) coord path"
    and "path \<noteq> []"
  shows "\<forall>k \<in> set (coord # path). map_of (bubbles (explode s coord)) k = Some None"
proof -
  let ?col = "bulletColor s"
  let ?g = "bubbles s"
  let ?g' = "bubbles (explode s coord)"
  have co: "clearsOnly ?col ?g ?g'"
    using assms(1) by (rule explode_clearsOnly(1))
  from explode_seals(1) [OF assms(1), of coord]
  have s0: "sealed ?col ?g' coord"
    and ch: "\<forall>x. map_of ?g' x \<noteq> map_of ?g x \<longrightarrow> sealed ?col ?g' x"
    by blast+
  from sealed_chain_cleared [OF co ch s0 assms(3)]
  have path: "\<forall>k \<in> set path. map_of ?g' k = Some None" .
  from assms(4) obtain k rest where p: "path = k # rest" by (cases path) auto
  with assms(3) have nk: "neighbour coord k" and ck: "map_of ?g k = Some (Some ?col)"
    by simp_all
  from path p have "map_of ?g' k = Some None" by simp
  with ck ch have "sealed ?col ?g' k" by simp
  with nk have "map_of ?g' coord \<noteq> Some (Some ?col)"
    by (simp add: sealed_def neighbour_sym)
  with co assms(2) have "map_of ?g' coord = Some None" by (rule clearsOnly_changed)
  with path show ?thesis by simp
qed

theorem explode_clears_component_of_two_or_more_witness:
  "distinct (map fst [(Vec2D (-1) 2, Some Blue), (Vec2D 0 2, Some Blue), (Vec2D 1 2, Some Blue),
      (Vec2D (1/2) 1, Some Blue), (Vec2D (3/2) 1, Some Orange), (Vec2D (-1/2) 1, None)]) \<and>
   isChain [(Vec2D (-1) 2, Some Blue), (Vec2D 0 2, Some Blue), (Vec2D 1 2, Some Blue),
      (Vec2D (1/2) 1, Some Blue), (Vec2D (3/2) 1, Some Orange), (Vec2D (-1/2) 1, None)]
     Blue (Vec2D (-1) 2) [Vec2D 0 2, Vec2D 1 2, Vec2D (1/2) 1] \<and>
   map_of (bubbles (explode
     \<lparr>gun = Vec2D 0 1,
      bubbles = [(Vec2D (-1) 2, Some Blue), (Vec2D 0 2, Some Blue), (Vec2D 1 2, Some Blue),
        (Vec2D (1/2) 1, Some Blue), (Vec2D (3/2) 1, Some Orange), (Vec2D (-1/2) 1, None)],
      bullet = Some (Vec2D (-1) 2), bulletColor = Blue, time = 3, score = 0,
      wantedLandingPosition = Vec2D 0 2, scoreText = []\<rparr> (Vec2D (-1) 2))) (Vec2D (-1) 2)
     = Some None \<and>
   map_of (bubbles (explode
     \<lparr>gun = Vec2D 0 1,
      bubbles = [(Vec2D (-1) 2, Some Blue), (Vec2D 0 2, Some Blue), (Vec2D 1 2, Some Blue),
        (Vec2D (1/2) 1, Some Blue), (Vec2D (3/2) 1, Some Orange), (Vec2D (-1/2) 1, None)],
      bullet = Some (Vec2D (-1) 2), bulletColor = Blue, time = 3, score = 0,
      wantedLandingPosition = Vec2D 0 2, scoreText = []\<rparr> (Vec2D (-1) 2))) (Vec2D (1/2) 1)
     = Some None"
proof -
  let ?s = "\<lparr>gun = Vec2D 0 1,
      bubbles = [(Vec2D (-1) 2, Some Blue), (Vec2D 0 2, Some Blue), (Vec2D 1 2, Some Blue),
        (Vec2D (1/2) 1, Some Blue), (Vec2D (3/2) 1, Some Orange), (Vec2D (-1/2) 1, None)],
      bullet = Some (Vec2D (-1) 2), bulletColor = Blue, time = 3, score = 0,
      wantedLandingPosition = Vec2D 0 2, scoreText = []\<rparr>"
  have d: "distinct (map fst (bubbles ?s))" by simp
  have c: "map_of (bubbles ?s) (Vec2D (-1) 2) = Some (Some (bulletColor ?s))" by simp
  have p: "isChain (bubbles ?s) (bulletColor ?s) (Vec2D (-1) 2) [Vec2D 0 2, Vec2D 1 2, Vec2D (1/2) 1]"
    by (simp add: neighbour_def)
  have n: "[Vec2D 0 2, Vec2D 1 2, Vec2D (1/2) 1] \<noteq> []" by simp
  from explode_clears_component_of_two_or_more [OF d c p n] d p show ?thesis by simp
qed

text \<open>
  C1 as stated fails for a component of one cell: a blue bullet that lands beside an orange
  bubble, with no blue neighbour, is a component by itself and keeps its colour.
\<close>

theorem explode_component_counterexample:
  "map_of [(Vec2D 0 2, Some Orange), (Vec2D 1 2, Some Blue), (Vec2D (1/2) 1, None)] (Vec2D 1 2)
     = Some (Some Blue) \<and>
   isChain [(Vec2D 0 2, Some Orange), (Vec2D 1 2, Some Blue), (Vec2D (1/2) 1, None)]
     Blue (Vec2D 1 2) [] \<and>
   explode
     \<lparr>gun = Vec2D 0 1,
      bubbles = [(Vec2D 0 2, Some Orange), (Vec2D 1 2, Some Blue), (Vec2D (1/2) 1, None)],
      bullet = Some (Vec2D 1 2), bulletColor = Blue, time = 3/2, score = 0,
      wantedLandingPosition = Vec2D 0 2, scoreText = []\<rparr> (Vec2D 1 2)
   = \<lparr>gun = Vec2D 0 1,
      bubbles = [(Vec2D 0 2, Some Orange), (Vec2D 1 2, Some Blue), (Vec2D (1/2) 1, None)],
      bullet = Some (Vec2D 1 2), bulletColor = Blue, time = 3/2, score = 0,
      wantedLandingPosition = Vec2D 0 2, scoreText = []\<rparr> \<and>
   landBullet Orange
     \<lparr>gun = Vec2D 0 1,
      bubbles = [(Vec2D 0 2, Some Orange), (Vec2D 1 2, None), (Vec2D (1/2) 1, None)],
      bullet = Some (Vec2D 0 (3/4)), bulletColor = Blue, time = 3/2, score = 0,
      wantedLandingPosition = Vec2D 0 2, scoreText = []\<rparr>
   = Inr (Vec2D 1 2,
      \<lparr>gun = Vec2D 0 1,
       bubbles = [(Vec2D 0 2, Some Orange), (Vec2D 1 2, Some Blue), (Vec2D (1/2) 1, None)],
       bullet = Some (Vec2D 0 0), bulletColor = Orange, time = 0, score = 0,
       wantedLandingPosition = Vec2D 0 2, scoreText = []\<rparr>)"
proof -
  let ?pre = "\<lparr>gun = Vec2D 0 1,
      bubbles = [(Vec2D 0 2, Some Orange), (Vec2D 1 2, None), (Vec2D (1/2) 1, None)],
      bullet = Some (Vec2D 0 (3/4)), bulletColor = Blue, time = 3/2, score = 0,
      wantedLandingPosition = Vec2D 0 2, scoreText = []\<rparr>"
  let ?placed = "\<lparr>gun = Vec2D 0 1,
      bubbles = [(Vec2D 0 2, Some Orange), (Vec2D 1 2, Some Blue), (Vec2D (1/2) 1, None)],
      bullet = Some (Vec2D 1 2), bulletColor = Blue, time = 3/2, score = 0,
      wantedLandingPosition = Vec2D 0 2, scoreText = []\<rparr>"
  have e: "explode ?placed (Vec2D 1 2) = ?placed"
    by (simp add: getSurroundingBubbles_def)
  have n: "getSurroundingBubbles (bubbles ?pre) (wantedLandingPosition ?pre) None
      = [(Vec2D 1 2, None), (Vec2D (1/2) 1, None)]"
    by (simp add: getSurroundingBubbles_def)
  have m: "minDistance ?pre = Some 1"
    unfolding minDistance_def distances_def n
    by (simp add: length_Vec2D_def sub_def min_def)
  have f: "finalPosition ?pre = Some (Vec2D 1 2)"
    unfolding finalPosition_def m unfolding distances_def n
    by (simp add: length_Vec2D_def sub_def)
  have "landBullet Orange ?pre = Inr (Vec2D 1 2, newRound Orange (explode ?placed (Vec2D 1 2)))"
    by (simp add: landBullet_def f)
  also have "newRound Orange (explode ?placed (Vec2D 1 2))
      = \<lparr>gun = Vec2D 0 1,
       bubbles = [(Vec2D 0 2, Some Orange), (Vec2D 1 2, Some Blue), (Vec2D (1/2) 1, None)],
       bullet = Some (Vec2D 0 0), bulletColor = Orange, time = 0, score = 0,
       wantedLandingPosition = Vec2D 0 2, scoreText = []\<rparr>"
    unfolding e by (simp add: newRound_def createBullet_def)
  finally show ?thesis using e by simp
qed

section \<open>Score and keys\<close>

lemma length_filter_split:
  "\<forall>x \<in> set xs. (P x \<longleftrightarrow> Q x \<or> R x) \<and> \<not> (Q x \<and> R x) \<Longrightarrow>
   length (filter P xs) = length (filter Q xs) + length (filter R xs)"
  by (induction xs) auto

lemma colored_clearsOnly:
  assumes "clearsOnly col g g'"
  shows "colored g = colored g' + cellsCleared g g'"
proof -
  from assms have keys: "map fst g' = map fst g"
    and cells: "\<And>x. map_of g' x = map_of g x \<or>
                    (map_of g x = Some (Some col) \<and> map_of g' x = Some None)"
    by (simp_all add: clearsOnly_def)
  have "\<forall>x \<in> set (map fst g).
      (map_of g x \<noteq> Some None \<longleftrightarrow>
         map_of g' x \<noteq> Some None \<or> (map_of g x \<noteq> Some None \<and> map_of g' x = Some None)) \<and>
      \<not> (map_of g' x \<noteq> Some None \<and> (map_of g x \<noteq> Some None \<and> map_of g' x = Some None))"
    using cells by (metis option.inject option.distinct(1))
  then show ?thesis
    unfolding colored_def cellsCleared_def keys by (rule length_filter_split)
qed

lemma cellsCleared_update:
  assumes "distinct (map fst g)" and "map_of g k = Some (Some c)"
  shows "cellsCleared g (AList.update k None g) = 1"
proof -
  have k: "k \<in> set (map fst g)"
    using assms(2) by (metis domI dom_map_of_conv_image_fst set_map)
  have "filter (\<lambda>x. map_of g x \<noteq> Some None \<and> map_of (AList.update k None g) x = Some None)
          (map fst g) = filter (\<lambda>x. x = k) (map fst g)"
    using assms(2) by (intro filter_cong) (auto simp: update_conv)
  moreover have "length (filter (\<lambda>x. x = k) (map fst g)) = card ({x. x = k} \<inter> set (map fst g))"
    using assms(1) by (rule distinct_length_filter)
  moreover have "{x. x = k} \<inter> set (map fst g) = {k}"
    using k by auto
  ultimately show ?thesis by (simp add: cellsCleared_def)
qed

lemma colored_update:
  assumes "distinct (map fst g)" and "map_of g k = Some (Some c)"
  shows "colored g = Suc (colored (AList.update k None g))"
  using colored_clearsOnly [OF clearsOnly_update [OF assms(2)]] cellsCleared_update [OF assms]
  by simp

lemma score_updateScore [simp]: "score (updateScore s) = score s"
  by (simp add: updateScore_def)

lemma explode_potential:
  "distinct (map fst (bubbles s)) \<Longrightarrow>
     score (explode s coord) + 10 * int (colored (bubbles (explode s coord)))
       = score s + 10 * int (colored (bubbles s))"
  "distinct (map fst (bubbles s)) \<Longrightarrow> targets s ks \<Longrightarrow>
     score (explodeEach s ks) + 10 * int (colored (bubbles (explodeEach s ks)))
       = score s + 10 * int (colored (bubbles s))"
proof (induct s coord and s ks rule: explode_explodeEach.induct)
  case (1 s coord)
  then show ?case by (simp add: getSurroundingBubbles_targets)
next
  case (2 s)
  show ?case by simp
next
  case (3 s k rest)
  let ?col = "bulletColor s"
  let ?s' = "(updateScore (s\<lparr>score := score s + 10\<rparr>))\<lparr>bubbles := AList.update k None (bubbles s)\<rparr>"
  from 3(5) have rest: "targets s rest" by (simp add: targets_def)
  show ?case
  proof (cases "map_of (bubbles s) k \<noteq> Some None")
    case True
    let ?t1 = "explode ?s' k"
    from True 3(5) have k: "map_of (bubbles s) k = Some (Some ?col)" by (simp add: targets_def)
    have col': "bulletColor ?s' = ?col" by (simp add: updateScore_def)
    have col1: "bulletColor ?t1 = ?col"
      by (simp add: explode_bulletColor updateScore_def)
    have c1: "clearsOnly ?col (bubbles s) (bubbles ?s')"
      using k by (simp add: clearsOnly_update)
    then have d': "distinct (map fst (bubbles ?s'))"
      using 3(4) by (rule clearsOnly_distinct)
    have c2: "clearsOnly ?col (bubbles ?s') (bubbles ?t1)"
      using explode_clearsOnly(1) [OF d', of k] col' by simp
    have c12: "clearsOnly ?col (bubbles s) (bubbles ?t1)"
      using c1 c2 by (rule clearsOnly_trans)
    then have d1: "distinct (map fst (bubbles ?t1))"
      using 3(4) by (rule clearsOnly_distinct)
    have tg1: "targets ?t1 rest"
      using rest c12 col1 by (rule targets_clearsOnly)
    have "score ?s' + 10 * int (colored (bubbles ?s')) = score s + 10 * int (colored (bubbles s))"
      using colored_update [OF 3(4) k] by simp
    with 3(1) [OF True d'] 3(2) [OF True d1 tg1] True show ?thesis by simp
  next
    case False
    with 3(3) [OF _ 3(4) rest] show ?thesis by simp
  qed
qed

lemma explode_score:
  assumes "distinct (map fst (bubbles s))"
  shows "score (explode s coord)
           = score s + 10 * int (cellsCleared (bubbles s) (bubbles (explode s coord)))"
  using explode_potential(1) [OF assms, of coord]
    colored_clearsOnly [OF explode_clearsOnly(1) [OF assms, of coord]]
  by simp

lemma explode_keys:
  "map fst (bubbles (explode s coord)) = map fst (bubbles s)"
  "set ks \<subseteq> fst ` set (bubbles s) \<Longrightarrow>
     map fst (bubbles (explodeEach s ks)) = map fst (bubbles s)"
proof (induct s coord and s ks rule: explode_explodeEach.induct)
  case (1 s coord)
  have "fst ` set (getSurroundingBubbles (bubbles s) coord (Some (bulletColor s))) \<subseteq> fst ` set (bubbles s)"
    using getSurroundingBubbles_subset by (rule image_mono)
  with 1 show ?case by simp
next
  case (2 s)
  show ?case by simp
next
  case (3 s k rest)
  let ?s' = "(updateScore (s\<lparr>score := score s + 10\<rparr>))\<lparr>bubbles := AList.update k None (bubbles s)\<rparr>"
  from 3(4) have k: "k \<in> fst ` set (bubbles s)" and rest: "set rest \<subseteq> fst ` set (bubbles s)"
    by simp_all
  show ?case
  proof (cases "map_of (bubbles s) k \<noteq> Some None")
    case True
    have k': "map fst (bubbles ?s') = map fst (bubbles s)"
      using k by (simp add: update_keys)
    with 3(1) [OF True] have k1: "map fst (bubbles (explode ?s' k)) = map fst (bubbles s)"
      by simp
    then have "fst ` set (bubbles (explode ?s' k)) = fst ` set (bubbles s)"
      by (metis set_map)
    with rest 3(2) [OF True] k1 True show ?thesis by simp
  next
    case False
    with 3(3) [OF _ rest] show ?thesis by simp
  qed
qed

section \<open>Rounds of play\<close>

lemma bulletIsAboutToCollide_fields:
  "bubbles (snd (bulletIsAboutToCollide s)) = bubbles s"
  "score (snd (bulletIsAboutToCollide s)) = score s"
  "bulletColor (snd (bulletIsAboutToCollide s)) = bulletColor s"
  by (simp_all add: bulletIsAboutToCollide_def split: option.splits)

lemma newRound_fields:
  "bubbles (newRound sampled s) = bubbles s"
  "score (newRound sampled s) = score s"
  by (simp_all add: newRound_def declareWin_def Let_def)

lemma finalPosition_free:
  assumes "finalPosition s = Some p"
  shows "(p, None) \<in> set (bubbles s)"
proof -
  from assms have "p \<in> set (map fst (distances s))"
    unfolding finalPosition_def by (metis find_Some_iff nth_mem)
  then obtain c where
    c: "(p, c) \<in> set (getSurroundingBubbles (bubbles s) (wantedLandingPosition s) None)"
    by (force simp: distances_def)
  then have "c = None" by (rule getSurroundingBubbles_free)
  with c getSurroundingBubbles_subset show ?thesis by blast
qed

lemma finalPosition_key:
  "finalPosition s = Some p \<Longrightarrow> p \<in> fst ` set (bubbles s)"
  by (drule finalPosition_free) force

lemma landBullet_keys:
  "landBullet sampled s = Inr (p, t) \<Longrightarrow> map fst (bubbles t) = map fst (bubbles s)"
  by (auto simp: landBullet_def newRound_fields explode_keys update_keys
      simp del: explode.simps dest: finalPosition_key split: option.splits)

lemma landBullet_score:
  assumes "landBullet sampled s = Inr (p, t)" and "distinct (map fst (bubbles s))"
  shows "score t = score s + 10 * int (cellsCleared
           (AList.update p (Some (bulletColor s)) (bubbles s)) (bubbles t))"
proof -
  let ?placed = "s\<lparr>bullet := Some p, bubbles := AList.update p (Some (bulletColor s)) (bubbles s)\<rparr>"
  from assms(1) have t: "t = newRound sampled (explode ?placed p)"
    by (auto simp: landBullet_def split: option.splits)
  have "distinct (map fst (bubbles ?placed))"
    using assms(2) by (simp add: distinct_update)
  from explode_score [OF this, of p] show ?thesis
    by (simp add: t newRound_fields del: explode.simps)
qed

lemma flight_keys:
  "flight directionVector sampled s = Some r \<Longrightarrow>
   map fst (bubbles (endState r)) = map fst (bubbles s)"
proof (induction rule: flight.raw_induct [rotated 1, consumes 1])
  case (1 flight directionVector sampled s r)
  show ?case
  proof (cases "fst (bulletIsAboutToCollide s)")
    case True
    with 1(2) show ?thesis
      by (auto simp: bulletIsAboutToCollide_fields split: sum.splits dest: landBullet_keys)
  next
    case False
    show ?thesis
    proof (cases "outsidePlayground (bullet s)")
      case True
      with False 1(2) show ?thesis by (auto simp: newRound_fields)
    next
      case inside: False
      with False 1(2) have "flight directionVector sampled
          (s\<lparr>bullet := map_option (\<lambda>d. add (Vec2D 0 0) (scalarMul d (time s))) directionVector,
             time := time s + 0.75\<rparr>) = Some r"
        by simp
      from 1(1) [OF this] show ?thesis by simp
    qed
  qed
qed

lemma flight_score:
  "flight directionVector sampled s = Some r \<Longrightarrow> distinct (map fst (bubbles s)) \<Longrightarrow>
   (case r of
      OutOfBounds t \<Rightarrow> score t = score s - 10 \<and> bubbles t = bubbles s
    | Landed p t \<Rightarrow>
        score t = score s + 10 * int (cellsCleared
          (AList.update p (Some (bulletColor s)) (bubbles s)) (bubbles t))
    | Threw e t \<Rightarrow> score t = score s \<and> bubbles t = bubbles s)"
proof (induction rule: flight.raw_induct [rotated 1, consumes 1])
  case (1 flight directionVector sampled s r)
  show ?case
  proof (cases "fst (bulletIsAboutToCollide s)")
    case True
    let ?s1 = "snd (bulletIsAboutToCollide s)"
    show ?thesis
    proof (cases "landBullet sampled ?s1")
      case (Inl e)
      with True 1(2) show ?thesis
        by (auto simp: bulletIsAboutToCollide_fields)
    next
      case (Inr pt)
      obtain p t where pt: "pt = (p, t)" by (cases pt)
      have "distinct (map fst (bubbles ?s1))"
        using 1(3) by (simp add: bulletIsAboutToCollide_fields)
      from landBullet_score [OF Inr [unfolded pt] this]
      have "score t = score s + 10 * int (cellsCleared
          (AList.update p (Some (bulletColor s)) (bubbles s)) (bubbles t))"
        by (simp add: bulletIsAboutToCollide_fields)
      with True 1(2) Inr pt show ?thesis by auto
    qed
  next
    case False
    show ?thesis
    proof (cases "outsidePlayground (bullet s)")
      case True
      with False 1(2) show ?thesis by (auto simp: newRound_fields)
    next
      case inside: False
      with False 1(2) have "flight directionVector sampled
          (s\<lparr>bullet := map_option (\<lambda>d. add (Vec2D 0 0) (scalarMul d (time s))) directionVector,
             time := time s + 0.75\<rparr>) = Some r"
        by simp
      from 1(1) [OF this] 1(3) show ?thesis by (simp split: FlightEnd.splits)
    qed
  qed
qed

lemma play_keys: "play s cleared missed t \<Longrightarrow> map fst (bubbles t) = map fst (bubbles s)"
proof (induction rule: play.induct)
  case start
  show ?case by simp
next
  case (aim cleared missed t offsetX offsetY)
  then show ?case by (simp add: mousemove_def)
next
  case (turn cleared missed t direction)
  then show ?case by (simp add: rotateGun_def)
next
  case (miss cleared missed t sampled t')
  from flight_keys [OF miss(2) [unfolded fireBullet_def Let_def]] miss(3) show ?case by simp
next
  case (land cleared missed t sampled p t')
  from flight_keys [OF land(2) [unfolded fireBullet_def Let_def]] land(3) show ?case by simp
next
  case (throw cleared missed t sampled e t')
  from flight_keys [OF throw(2) [unfolded fireBullet_def Let_def]] throw(3) show ?case by simp
qed

lemma game0_lands: "fireBullet Orange game0 = Some (Landed (Vec2D (-1/2) 1) game1)"
proof -
  let ?s1 = "game0\<lparr>wantedLandingPosition := Vec2D (1/2) 1\<rparr>"
  let ?placed = "?s1\<lparr>bullet := Some (Vec2D (-1/2) 1),
      bubbles := AList.update (Vec2D (-1/2) 1) (Some (bulletColor ?s1)) (bubbles ?s1)\<rparr>"
  have scan: "collisionScan (bullet game0) (bubbles game0) = Some (Vec2D (1/2) 1)"
    by (simp add: game0_def nearBullet_Some power2_eq_square)
  then have hit: "bulletIsAboutToCollide game0 = (True, ?s1)"
    by (simp add: bulletIsAboutToCollide_def)
  have n: "getSurroundingBubbles (bubbles ?s1) (wantedLandingPosition ?s1) None
      = [(Vec2D (-1/2) 1, None), (Vec2D (3/2) 1, None)]"
    by (simp add: game0_def getSurroundingBubbles_def)
  have m: "minDistance ?s1 = Some 1"
    unfolding minDistance_def distances_def n
    by (simp add: length_Vec2D_def sub_def min_def)
  have f: "finalPosition ?s1 = Some (Vec2D (-1/2) 1)"
    unfolding finalPosition_def m unfolding distances_def n
    by (simp add: length_Vec2D_def sub_def)
  have e: "explode ?placed (Vec2D (-1/2) 1) =
      \<lparr>gun = Vec2D 0 1,
       bubbles = [(Vec2D (1/2) 1, None), (Vec2D (-1/2) 1, None), (Vec2D (3/2) 1, None)],
       bullet = Some (Vec2D (-1/2) 1), bulletColor = Blue, time = 0, score = 20,
       wantedLandingPosition = Vec2D (1/2) 1, scoreText = [SCORE 10, SCORE 20]\<rparr>"
    by (simp add: game0_def getSurroundingBubbles_def updateScore_def)
  have "landBullet Orange ?s1 = Inr (Vec2D (-1/2) 1, newRound Orange (explode ?placed (Vec2D (-1/2) 1)))"
    by (simp add: landBullet_def f del: explode.simps)
  also have "newRound Orange (explode ?placed (Vec2D (-1/2) 1)) = game1"
    unfolding e by (simp add: newRound_def createBullet_def declareWin_def game1_def)
  finally have "landBullet Orange ?s1 = Inr (Vec2D (-1/2) 1, game1)" .
  with hit have "flight d Orange game0 = Some (Landed (Vec2D (-1/2) 1) game1)" for d
    by (subst flight.simps) simp
  then show ?thesis by (simp add: fireBullet_def)
qed

lemma game1_aims_down: "mousemove 400 620 game1 = game1\<lparr>gun := Vec2D 0 (-1)\<rparr>"
  by (simp add: mousemove_def canvas2Math_def SCALE_def PLAYGROUND_WIDTH_def PLAYGROUND_HEIGHT_def)

lemma game1_misses: "fireBullet White (game1\<lparr>gun := Vec2D 0 (-1)\<rparr>) = Some (OutOfBounds game2)"
proof -
  let ?g = "[(Vec2D (1/2) 1, None), (Vec2D (-1/2) 1, None), (Vec2D (3/2) 1, None)]"
  let ?s = "game1\<lparr>gun := Vec2D 0 (-1)\<rparr>"
  have d: "length_Vec2D (sub (gun ?s) (Vec2D 0 0)) = 1"
    by (simp add: game1_def length_Vec2D_def sub_def)
  have dir: "scalarDiv (sub (gun ?s) (Vec2D 0 0)) 1 = Vec2D 0 (-1)"
    by (simp add: game1_def scalarDiv_def sub_def)
  have free: "fst (bulletIsAboutToCollide u) = False" if "bubbles u = ?g" for u
    using that by (simp add: bulletIsAboutToCollide_def)
  let ?a = "?s\<lparr>bullet := Some (Vec2D 0 0), time := 3/4\<rparr>"
  let ?b = "?s\<lparr>bullet := Some (Vec2D 0 (-3/4)), time := 3/2\<rparr>"
  have 3: "flight (Some (Vec2D 0 (-1))) White ?b = Some (OutOfBounds game2)"
    by (subst flight.simps)
       (simp add: free game1_def game2_def outsidePlayground_def newRound_def updateScore_def
          declareWin_def createBullet_def)
  have 2: "flight (Some (Vec2D 0 (-1))) White ?a = flight (Some (Vec2D 0 (-1))) White ?b"
    by (subst flight.simps)
       (simp add: free game1_def outsidePlayground_def add_def scalarMul_def
          PLAYGROUND_WIDTH_def PLAYGROUND_HEIGHT_def)
  have 1: "flight (Some (Vec2D 0 (-1))) White ?s = flight (Some (Vec2D 0 (-1))) White ?a"
    by (subst flight.simps)
       (simp add: free game1_def outsidePlayground_def add_def scalarMul_def
          PLAYGROUND_WIDTH_def PLAYGROUND_HEIGHT_def)
  show ?thesis
    unfolding fireBullet_def Let_def d dir using 1 2 3 by simp
qed

lemma game_play: "play game0 2 (Suc 0) game2"
proof -
  have "cellsCleared (AList.update (Vec2D (-1/2) 1) (Some (bulletColor game0)) (bubbles game0))
      (bubbles game1) = 2"
    by (simp add: cellsCleared_def game0_def game1_def)
  with play.land [OF play.start game0_lands] have "play game0 2 0 game1" by simp
  from play.aim [OF this, of 400 620] have "play game0 2 0 (game1\<lparr>gun := Vec2D 0 (-1)\<rparr>)"
    by (simp add: game1_aims_down)
  from play.miss [OF this game1_misses] show ?thesis .
qed

text \<open>
  C3. Along every sequence of aimings and shots from a grid with distinct keys, the score
  is the initial score plus 10 for each cell an explosion cleared, minus 10 for each shot
  that left the play area: aiming, landing as such, a new round and a landing that throws
  leave it alone. An explosion alone raises the score by 10 times the number of cells that
  it cleared, and a new round does not change it.
\<close>

theorem score_counts_cleared_cells_and_missed_shots:
  assumes "distinct (map fst (bubbles s))"
  shows "(\<forall>cleared missed t. play s cleared missed t \<longrightarrow>
            score t = score s + 10 * int cleared - 10 * int missed) \<and>
         score (explode s coord)
           = score s + 10 * int (cellsCleared (bubbles s) (bubbles (explode s coord))) \<and>
         score (newRound sampled s) = score s"
proof -
  have "score t = score s + 10 * int cleared - 10 * int missed \<and> distinct (map fst (bubbles t))"
    if "play s cleared missed t" for cleared missed t
    using that
  proof (induction rule: play.induct)
    case start
    show ?case using assms by simp
  next
    case (aim cleared missed t offsetX offsetY)
    then show ?case by (simp add: mousemove_def)
  next
    case (turn cleared missed t direction)
    then show ?case by (simp add: rotateGun_def)
  next
    case (miss cleared missed t sampled t')
    from flight_score [OF miss(2) [unfolded fireBullet_def Let_def]] miss(3)
    show ?case by simp
  next
    case (land cleared missed t sampled p t')
    from flight_score [OF land(2) [unfolded fireBullet_def Let_def]]
      flight_keys [OF land(2) [unfolded fireBullet_def Let_def]] land(3)
    show ?case by simp
  next
    case (throw cleared missed t sampled e t')
    from flight_score [OF throw(2) [unfolded fireBullet_def Let_def]] throw(3)
    show ?case by simp
  qed
  with explode_score [OF assms, of coord] show ?thesis
    by (simp add: newRound_fields del: explode.simps)
qed

theorem score_counts_cleared_cells_and_missed_shots_witness:
  "distinct (map fst (bubbles game0)) \<and> play game0 2 (Suc 0) game2 \<and>
   score game2 = score game0 + 10 * 2 - 10 * 1"
  using score_counts_cleared_cells_and_missed_shots [of game0] game_play
  by (simp add: game0_def game2_def)

section \<open>The keys of the grid\<close>

text \<open>
  C5. No sequence of aimings and shots, hence of landings and explosions, changes the keys
  of the grid or their order. A landing colours a free cell that is an entry of the grid
  already, and an explosion assigns only to keys of the grid, so that neither adds nor
  removes a key; with distinct keys, an explosion leaves each cell as it was or free.
\<close>

theorem keys_of_grid_never_change:
  "(\<forall>cleared missed t. play s cleared missed t \<longrightarrow>
      map fst (bubbles t) = map fst (bubbles s)) \<and>
   (\<forall>p t. landBullet sampled s = Inr (p, t) \<longrightarrow>
      (p, None) \<in> set (bubbles s) \<and>
      map fst (AList.update p (Some (bulletColor s)) (bubbles s)) = map fst (bubbles s) \<and>
      map fst (bubbles t) = map fst (bubbles s)) \<and>
   map fst (bubbles (explode s coord)) = map fst (bubbles s) \<and>
   (distinct (map fst (bubbles s)) \<longrightarrow>
      (\<forall>x. map_of (bubbles (explode s coord)) x = map_of (bubbles s) x \<or>
           map_of (bubbles (explode s coord)) x = Some None))"
proof -
  have "(p, None) \<in> set (bubbles s) \<and> p \<in> fst ` set (bubbles s)"
    if "landBullet sampled s = Inr (p, t)" for p t
    using that
    by (auto simp: landBullet_def split: option.splits
        dest: finalPosition_free finalPosition_key)
  moreover have "\<forall>x. map_of (bubbles (explode s coord)) x = map_of (bubbles s) x \<or>
           map_of (bubbles (explode s coord)) x = Some None"
    if "distinct (map fst (bubbles s))"
    using explode_clearsOnly(1) [OF that, of coord] unfolding clearsOnly_def by blast
  ultimately show ?thesis
    using play_keys landBullet_keys explode_keys(1)
    by (simp add: update_keys del: explode.simps)
qed

theorem keys_of_grid_never_change_witness:
  "play game0 2 (Suc 0) game2 \<and> map fst (bubbles game2) = map fst (bubbles game0)"
  using keys_of_grid_never_change [of game0] game_play by blast

section \<open>Flights over an empty grid\<close>

lemma no_collision_on_empty_grid:
  "\<forall>c \<in> set (bubbles s). snd c = None \<Longrightarrow> bulletIsAboutToCollide s = (False, s)"
proof -
  assume "\<forall>c \<in> set (bubbles s). snd c = None"
  then have "collisionScan (bullet s) (bubbles s) = None"
    by (subst collisionScan_None) auto
  then show ?thesis by (simp add: bulletIsAboutToCollide_def)
qed

lemma flight_NaN_never_returns:
  assumes "\<forall>c \<in> set (bubbles s). snd c = None" and "\<not> outsidePlayground (bullet s)"
  shows "flight None sampled s = None"
proof -
  have "directionVector = None \<Longrightarrow> \<forall>c \<in> set (bubbles s). snd c = None \<Longrightarrow>
      \<not> outsidePlayground (bullet s) \<Longrightarrow> False"
    if "flight directionVector sampled s = Some r" for directionVector s r
    using that
  proof (induction rule: flight.raw_induct [rotated 1, consumes 1])
    case (1 flight directionVector sampled s r)
    let ?s' = "s\<lparr>bullet := map_option (\<lambda>d. add (Vec2D 0 0) (scalarMul d (time s))) directionVector,
        time := time s + 0.75\<rparr>"
    from 1(2) 1(4) 1(5) have "flight directionVector sampled ?s' = Some r"
      by (simp add: no_collision_on_empty_grid)
    from 1(1) [OF this 1(3)] 1(3) 1(4) show ?case
      by (simp add: outsidePlayground_def)
  qed
  with assms show ?thesis by (cases "flight None sampled s") auto
qed

lemma unit_direction:
  assumes "v \<noteq> Vec2D 0 0"
  shows "(xc (scalarDiv v (length_Vec2D v)))\<^sup>2 + (yc (scalarDiv v (length_Vec2D v)))\<^sup>2 = 1"
    and "length_Vec2D v \<noteq> 0"
proof -
  from assms have xy: "xc v \<noteq> 0 \<or> yc v \<noteq> 0" by (cases v) auto
  then have pos: "0 < (xc v)\<^sup>2 + (yc v)\<^sup>2"
    by (metis add_pos_nonneg add_nonneg_pos zero_le_power2 zero_less_power2)
  from xy show nz: "length_Vec2D v \<noteq> 0" by (auto simp: length_Vec2D_def)
  have sq: "(length_Vec2D v)\<^sup>2 = (xc v)\<^sup>2 + (yc v)\<^sup>2"
    using pos by (simp add: length_Vec2D_def)
  have "(xc v / length_Vec2D v)\<^sup>2 + (yc v / length_Vec2D v)\<^sup>2
      = ((xc v)\<^sup>2 + (yc v)\<^sup>2) / (length_Vec2D v)\<^sup>2"
    by (simp add: power_divide add_divide_distrib)
  also have "\<dots> = 1" unfolding sq by (rule divide_self) (use pos in linarith)
  finally show "(xc (scalarDiv v (length_Vec2D v)))\<^sup>2 + (yc (scalarDiv v (length_Vec2D v)))\<^sup>2 = 1"
    by (simp add: scalarDiv_def)
qed

lemma far_is_outside:
  assumes unit: "(xc d)\<^sup>2 + (yc d)\<^sup>2 = 1" and far: "50 \<le> t"
  shows "outsidePlayground (Some (add (Vec2D 0 0) (scalarMul d t)))"
proof (rule ccontr)
  assume "\<not> outsidePlayground (Some (add (Vec2D 0 0) (scalarMul d t)))"
  then have x: "\<bar>xc d * t\<bar> \<le> 21" and y: "\<bar>yc d * t\<bar> \<le> 30"
    by (auto simp: outsidePlayground_def add_def scalarMul_def
        PLAYGROUND_WIDTH_def PLAYGROUND_HEIGHT_def)
  from x have "(xc d * t)\<^sup>2 \<le> 21\<^sup>2"
    by (metis abs_le_square_iff abs_numeral)
  moreover from y have "(yc d * t)\<^sup>2 \<le> 30\<^sup>2"
    by (metis abs_le_square_iff abs_numeral)
  ultimately have "(xc d * t)\<^sup>2 + (yc d * t)\<^sup>2 \<le> 1341" by simp
  moreover have "(xc d * t)\<^sup>2 + (yc d * t)\<^sup>2 = ((xc d)\<^sup>2 + (yc d)\<^sup>2) * t\<^sup>2"
    by (simp add: power_mult_distrib distrib_right)
  ultimately have "t\<^sup>2 \<le> 1341" using unit by simp
  moreover from far have "50\<^sup>2 \<le> t\<^sup>2" by (intro power_mono) simp_all
  ultimately show False by simp
qed

lemma flight_leaves_empty_grid:
  assumes unit: "(xc d)\<^sup>2 + (yc d)\<^sup>2 = 1"
  shows "\<forall>c \<in> set (bubbles s). snd c = None \<Longrightarrow> 50 \<le> time s + 0.75 * real n \<Longrightarrow>
    \<exists>t. flight (Some d) sampled s = Some (OutOfBounds t) \<and>
        score t = score s - 10 \<and> bubbles t = bubbles s"
proof (induction n arbitrary: s)
  case 0
  let ?s' = "s\<lparr>bullet := map_option (\<lambda>d. add (Vec2D 0 0) (scalarMul d (time s))) (Some d),
      time := time s + 0.75\<rparr>"
  show ?case
  proof (cases "outsidePlayground (bullet s)")
    case True
    with 0(1) have "flight (Some d) sampled s
        = Some (OutOfBounds (newRound sampled (updateScore (s\<lparr>score := score s - 10\<rparr>))))"
      by (subst flight.simps) (simp add: no_collision_on_empty_grid)
    then show ?thesis by (simp add: newRound_fields)
  next
    case False
    with 0(1) have "flight (Some d) sampled s = flight (Some d) sampled ?s'"
      by (subst flight.simps) (simp add: no_collision_on_empty_grid)
    moreover have "outsidePlayground (bullet ?s')"
      using far_is_outside [OF unit, of "time s"] 0(2) by simp
    then have "flight (Some d) sampled ?s'
        = Some (OutOfBounds (newRound sampled (updateScore (?s'\<lparr>score := score ?s' - 10\<rparr>))))"
      using 0(1) by (subst flight.simps) (simp add: no_collision_on_empty_grid)
    ultimately show ?thesis by (simp add: newRound_fields)
  qed
next
  case (Suc n)
  let ?s' = "s\<lparr>bullet := map_option (\<lambda>d. add (Vec2D 0 0) (scalarMul d (time s))) (Some d),
      time := time s + 0.75\<rparr>"
  show ?case
  proof (cases "outsidePlayground (bullet s)")
    case True
    with Suc(2) have "flight (Some d) sampled s
        = Some (OutOfBounds (newRound sampled (updateScore (s\<lparr>score := score s - 10\<rparr>))))"
      by (subst flight.simps) (simp add: no_collision_on_empty_grid)
    then show ?thesis by (simp add: newRound_fields)
  next
    case False
    with Suc(2) have "flight (Some d) sampled s = flight (Some d) sampled ?s'"
      by (subst flight.simps) (simp add: no_collision_on_empty_grid)
    moreover from Suc(3) have "50 \<le> (time s + 0.75) + 0.75 * real n"
      by (simp add: field_simps)
    then have "50 \<le> time ?s' + 0.75 * real n" by simp
    with Suc(2) have "\<exists>t. flight (Some d) sampled ?s' = Some (OutOfBounds t) \<and>
        score t = score ?s' - 10 \<and> bubbles t = bubbles ?s'"
      by (intro Suc.IH) simp_all
    ultimately show ?thesis by simp
  qed
qed

text \<open>
  With an aim other than the zero vector, a shot over a grid without coloured cells returns:
  it ends by the exit of the loop for a bullet outside the play area, ten points are taken
  and nothing lands. This holds from any position of the bullet and any time.
\<close>

lemma fireBullet_empty_grid_leaves:
  assumes "\<forall>c \<in> set (bubbles s). snd c = None" and "gun s \<noteq> Vec2D 0 0"
  shows "\<exists>t. fireBullet sampled s = Some (OutOfBounds t) \<and>
             score t = score s - 10 \<and> bubbles t = bubbles s"
proof -
  have g: "sub (gun s) (Vec2D 0 0) = gun s" by (simp add: sub_def)
  obtain n where "(50 - time s) / 0.75 < real n"
    using reals_Archimedean2 by blast
  then have n: "50 \<le> time s + 0.75 * real n"
    by (simp add: field_simps)
  from flight_leaves_empty_grid [OF unit_direction(1) [OF assms(2)] assms(1) n, of sampled]
  show ?thesis
    by (simp add: fireBullet_def Let_def g unit_direction(2) [OF assms(2)])
qed

text \<open>
  C8 fails on the code for the zero aim vector, which the handler of \<^verbatim>\<open>mousemove\<close> stores
  for the offsets (400, 600): the direction is then \<^verbatim>\<open>NaN\<close>, the bullet is never outside
  the play area, and over the grid without coloured cells of \<open>wonGame\<close> the flight never
  returns.
\<close>

theorem fireBullet_zero_aim_never_returns:
  "gun (mousemove 400 600 wonGame) = Vec2D 0 0 \<and>
   fireBullet White (mousemove 400 600 wonGame) = None"
proof -
  have g: "gun (mousemove 400 600 wonGame) = Vec2D 0 0"
    by (simp add: mousemove_def canvas2Math_def SCALE_def PLAYGROUND_WIDTH_def PLAYGROUND_HEIGHT_def)
  have "\<forall>c \<in> set (bubbles (mousemove 400 600 wonGame)). snd c = None"
    by (auto simp: mousemove_def wonGame_def)
  moreover have "\<not> outsidePlayground (bullet (mousemove 400 600 wonGame))"
    by (simp add: mousemove_def wonGame_def outsidePlayground_def createBullet_def)
  ultimately have "flight None White (mousemove 400 600 wonGame) = None"
    by (rule flight_NaN_never_returns)
  then have "fireBullet White (mousemove 400 600 wonGame) = None"
    unfolding fireBullet_def Let_def g by (simp add: sub_def length_Vec2D_def)
  with g show ?thesis by simp
qed

end
